theory Spec2Isabelle
  imports Main
begin

section \<open>Strings\<close>

text \<open>
  A JavaScript string is modelled as a \<^typ>\<open>string\<close>: a list of code units, here the
  code units below 256.  \<open>isSpace\<close> is the set of such code units that
  \<^verbatim>\<open>String.prototype.trim\<close> strips and that \<^verbatim>\<open>\s\<close> matches: tab, line feed,
  vertical tab, form feed, carriage return, space and the no-break space.
\<close>

definition isSpace :: "char \<Rightarrow> bool" where
  "isSpace c = ((of_char c :: nat) \<in> {9, 10, 11, 12, 13, 32, 160})"

definition jsTrim :: "string \<Rightarrow> string" where
  "jsTrim s = rev (dropWhile isSpace (rev (dropWhile isSpace s)))"

text \<open>
  \<^verbatim>\<open>toLowerCase\<close> and \<^verbatim>\<open>toUpperCase\<close> on these code units: the ASCII letters and the
  accented Latin-1 letters (\<open>0xC0\<close> to \<open>0xDE\<close> without the multiplication sign, and
  their lower-case forms \<open>0xE0\<close> to \<open>0xFE\<close> without the division sign).  The upper-case
  forms of \<open>0xB5\<close>, \<open>0xDF\<close> and \<open>0xFF\<close> are not code units below 256; these three are left as
  they are, and \<open>toUpperCase\<close> is applied below to letters matched by \<^verbatim>\<open>[a-d]\<close> only.
\<close>

definition lowerChar :: "char \<Rightarrow> char" where
  "lowerChar c =
     (let n = (of_char c :: nat)
      in if (65 \<le> n \<and> n \<le> 90) \<or> (192 \<le> n \<and> n \<le> 222 \<and> n \<noteq> 215)
         then char_of (n + 32) else c)"

definition upperChar :: "char \<Rightarrow> char" where
  "upperChar c =
     (let n = (of_char c :: nat)
      in if (97 \<le> n \<and> n \<le> 122) \<or> (224 \<le> n \<and> n \<le> 254 \<and> n \<noteq> 247)
         then char_of (n - 32) else c)"

definition toLowerCase :: "string \<Rightarrow> string" where
  "toLowerCase s = map lowerChar s"

definition toUpperCase :: "string \<Rightarrow> string" where
  "toUpperCase s = map upperChar s"

text \<open>\<^verbatim>\<open>s.slice(-n)\<close>: the last \<open>n\<close> code units, the whole string when it is shorter.\<close>

definition sliceLast :: "nat \<Rightarrow> string \<Rightarrow> string" where
  "sliceLast n s = drop (length s - n) s"

text \<open>\<^verbatim>\<open>s.includes(sub)\<close>.\<close>

fun jsIncludes :: "string \<Rightarrow> string \<Rightarrow> bool" where
  "jsIncludes [] sub = (sub = [])"
| "jsIncludes (c # cs) sub = (take (length sub) (c # cs) = sub \<or> jsIncludes cs sub)"


section \<open>The speech service (src/services/speechService.js)\<close>

text \<open>
  The options object handed to \<^verbatim>\<open>speak\<close> and \<^verbatim>\<open>startListening\<close> is passed through
  to the engines untouched; it is kept as a list of key/value pairs.
\<close>

type_synonym options = "(string \<times> string) list"

text \<open>
  The argument of \<^verbatim>\<open>onRecognitionErrorCallback\<close>: an object with a \<^verbatim>\<open>type\<close> field
  built by the service, or the caught exception itself (the outer \<^verbatim>\<open>catch\<close> of
  \<^verbatim>\<open>startListening\<close>).
\<close>

datatype recognitionError = ErrorOfType string | CaughtError

text \<open>
  What the service does to the outside world, in the order it does it: calls into the two
  engines, calls of the registered callbacks, and the settling of the promises its
  \<^verbatim>\<open>async\<close> methods returned (promises are numbered as they are created).
\<close>

datatype effect =
    TtsSpeak nat string
  | TtsStop
  | SttStart
  | SttStop
  | SttAbort
  | SpeechEnd
  | RecognitionResult string
  | RecognitionError recognitionError
  | Resolved nat
  | Rejected nat

text \<open>
  What is suspended in the event loop or in an engine.  An \<^verbatim>\<open>await\<close> of a timer splits
  a method in two: the part before it runs in the call, the part after it runs when the
  timer fires, and any other call or callback may run in between.
  \<^item> \<open>SpeakDelay text opts p\<close>: \<^verbatim>\<open>speak\<close> waiting its 500 ms after \<^verbatim>\<open>stopListening\<close>;
  \<^item> \<open>ListenDelay opts p\<close>: \<^verbatim>\<open>startListening\<close> waiting its 800 ms after \<^verbatim>\<open>stopSpeaking\<close>;
  \<^item> \<open>Utterance u p\<close>: the TTS engine holds utterance \<open>u\<close> and will call one of
    \<^verbatim>\<open>onDone\<close>, \<^verbatim>\<open>onStopped\<close>, \<^verbatim>\<open>onError\<close>;
  \<^item> \<open>PostSpeech p\<close>: the 300 ms timer set by \<^verbatim>\<open>onDone\<close>;
  \<^item> \<open>SilenceTimer t\<close>: the silence timeout armed by \<^verbatim>\<open>startListening\<close>;
  \<^item> \<open>ResultCallback text\<close>: the \<^verbatim>\<open>setTimeout(..., 0)\<close> that delivers a final transcript.
  \<open>p\<close> is the promise the suspended code will settle.
\<close>

datatype task =
    SpeakDelay string options nat
  | ListenDelay options nat
  | Utterance nat nat
  | PostSpeech nat
  | SilenceTimer nat
  | ResultCallback string

record service =
  isSpeaking :: bool
  isListening :: bool
  speechQueue :: "(string \<times> options) list"
  currentRecognition :: bool
  currentRecognitionSubscriptions :: bool
  onSpeechEndCallback :: bool
  onRecognitionResultCallback :: bool
  onRecognitionErrorCallback :: bool
  silenceTimeout :: "nat option"
  lastSpokenMessage :: "string option"
  pending :: "task list"
  startThrows :: bool
  nextId :: nat
  effects :: "effect list"

text \<open>
  The fields up to \<open>lastSpokenMessage\<close> are the fields of the class (a callback field
  records whether a callback is registered).  \<open>pending\<close> is the event loop and the engines,
  \<open>startThrows\<close> says whether the recogniser's \<^verbatim>\<open>start\<close> will throw, \<open>nextId\<close> numbers
  promises, timers and utterances, \<open>effects\<close> is the trace.
\<close>

definition silenceTimeoutDuration :: nat where
  "silenceTimeoutDuration = 10000"

fun delay :: "task \<Rightarrow> nat option" where
  "delay (SpeakDelay _ _ _) = Some 500"
| "delay (ListenDelay _ _) = Some 800"
| "delay (Utterance _ _) = None"
| "delay (PostSpeech _) = Some 300"
| "delay (SilenceTimer _) = Some silenceTimeoutDuration"
| "delay (ResultCallback _) = Some 0"

definition constructor :: service where
  "constructor = \<lparr> isSpeaking = False, isListening = False, speechQueue = [],
     currentRecognition = False, currentRecognitionSubscriptions = False,
     onSpeechEndCallback = False, onRecognitionResultCallback = False,
     onRecognitionErrorCallback = False, silenceTimeout = None,
     lastSpokenMessage = None, pending = [], startThrows = False, nextId = 0,
     effects = [] \<rparr>"

definition emit :: "effect \<Rightarrow> service \<Rightarrow> service" where
  "emit e s = s\<lparr>effects := effects s @ [e]\<rparr>"

definition suspend :: "task \<Rightarrow> service \<Rightarrow> service" where
  "suspend t s = s\<lparr>pending := pending s @ [t]\<rparr>"

definition clearTimeout :: "nat \<Rightarrow> service \<Rightarrow> service" where
  "clearTimeout t s = s\<lparr>pending := filter (\<lambda>x. x \<noteq> SilenceTimer t) (pending s)\<rparr>"

definition clearSilenceTimeout :: "service \<Rightarrow> service" where
  "clearSilenceTimeout s =
     (case silenceTimeout s of
        Some t \<Rightarrow> (clearTimeout t s)\<lparr>silenceTimeout := None\<rparr>
      | None \<Rightarrow> s)"

definition stopListening :: "service \<Rightarrow> service" where
  "stopListening s =
     (let s1 = clearSilenceTimeout s;
          s2 = (if currentRecognition s1
                then (emit SttStop s1)\<lparr>currentRecognitionSubscriptions := False,
                                        currentRecognition := False\<rparr>
                else s1)
      in s2\<lparr>isListening := False\<rparr>)"

definition abortListening :: "service \<Rightarrow> service" where
  "abortListening s =
     (let s1 = (if currentRecognition s
                then (emit SttAbort s)\<lparr>currentRecognitionSubscriptions := False,
                                        currentRecognition := False\<rparr>
                else s);
          s2 = clearSilenceTimeout s1
      in s2\<lparr>isListening := False\<rparr>)"

definition stopSpeaking :: "service \<Rightarrow> service" where
  "stopSpeaking s =
     (if isSpeaking s
      then (emit TtsStop s)\<lparr>isSpeaking := False, speechQueue := []\<rparr>
      else s)"

text \<open>
  The tail of \<^verbatim>\<open>speak\<close>, from \<^verbatim>\<open>this.isSpeaking = true\<close> on: the utterance is handed to
  the engine and the promise \<open>p\<close> stays open until the engine calls back.
\<close>

definition beginSpeech :: "nat \<Rightarrow> string \<Rightarrow> options \<Rightarrow> service \<Rightarrow> service" where
  "beginSpeech p text opts s =
     (let u = nextId s;
          s1 = s\<lparr>isSpeaking := True, lastSpokenMessage := Some text, nextId := u + 1\<rparr>
      in suspend (Utterance u p) (emit (TtsSpeak u text) s1))"

text \<open>\<^verbatim>\<open>speak(text, options)\<close>, with \<open>p\<close> the promise that the call returns.\<close>

definition speakAs :: "nat \<Rightarrow> string \<Rightarrow> options \<Rightarrow> service \<Rightarrow> service" where
  "speakAs p text opts s =
     (if text = [] \<or> jsTrim text = [] then emit (Resolved p) s
      else if isSpeaking s
      then emit (Resolved p) (s\<lparr>speechQueue := speechQueue s @ [(text, opts)]\<rparr>)
      else if isListening s
      then suspend (SpeakDelay text opts p) (stopListening s)
      else beginSpeech p text opts s)"

definition speak :: "string \<Rightarrow> options \<Rightarrow> service \<Rightarrow> service" where
  "speak text opts s = speakAs (nextId s) text opts (s\<lparr>nextId := nextId s + 1\<rparr>)"

text \<open>
  The \<^verbatim>\<open>try\<close> block of \<^verbatim>\<open>startListening\<close> with its two \<^verbatim>\<open>catch\<close> handlers.  When
  the recogniser's \<^verbatim>\<open>start\<close> throws, the inner handlers remove the listeners and report
  an error of type \<^verbatim>\<open>unknown\<close>, rethrow, and the outer handler reports the exception
  again and swallows it.
\<close>

definition listenBody :: "options \<Rightarrow> nat \<Rightarrow> service \<Rightarrow> service" where
  "listenBody opts p s =
     (let s1 = (if currentRecognition s then stopListening s else s);
          s2 = s1\<lparr>isListening := True\<rparr>;
          s3 = (case silenceTimeout s2 of Some t \<Rightarrow> clearTimeout t s2 | None \<Rightarrow> s2);
          t = nextId s3;
          s4 = suspend (SilenceTimer t) (s3\<lparr>silenceTimeout := Some t, nextId := t + 1\<rparr>);
          s5 = s4\<lparr>currentRecognitionSubscriptions := True\<rparr>;
          s6 = (if startThrows s5
                then (let s7 = s5\<lparr>currentRecognitionSubscriptions := False,
                                    isListening := False\<rparr>;
                          s8 = (if onRecognitionErrorCallback s7
                                then emit (RecognitionError (ErrorOfType ''unknown'')) s7
                                else s7)
                      in if onRecognitionErrorCallback s8
                         then emit (RecognitionError CaughtError) s8 else s8)
                else (emit SttStart s5)\<lparr>currentRecognition := True\<rparr>)
      in emit (Resolved p) s6)"

definition startListening :: "options \<Rightarrow> service \<Rightarrow> service" where
  "startListening opts s =
     (let p = nextId s; s0 = s\<lparr>nextId := p + 1\<rparr>
      in if isListening s0 then emit (Resolved p) s0
         else if isSpeaking s0 then suspend (ListenDelay opts p) (stopSpeaking s0)
         else listenBody opts p s0)"

definition cleanup :: "service \<Rightarrow> service" where
  "cleanup s = (stopListening (stopSpeaking s))\<lparr>onSpeechEndCallback := False,
     onRecognitionResultCallback := False, onRecognitionErrorCallback := False,
     lastSpokenMessage := None\<rparr>"

definition notifySpeechEnd :: "service \<Rightarrow> service" where
  "notifySpeechEnd s = (if onSpeechEndCallback s then emit SpeechEnd s else s)"

text \<open>The three callbacks handed to the TTS engine for an utterance with promise \<open>p\<close>.\<close>

definition onDone :: "nat \<Rightarrow> service \<Rightarrow> service" where
  "onDone p s = suspend (PostSpeech p) (s\<lparr>isSpeaking := False\<rparr>)"

definition onStopped :: "nat \<Rightarrow> service \<Rightarrow> service" where
  "onStopped p s = emit (Resolved p) (notifySpeechEnd (s\<lparr>isSpeaking := False\<rparr>))"

definition onError :: "nat \<Rightarrow> service \<Rightarrow> service" where
  "onError p s = emit (Rejected p) (notifySpeechEnd (s\<lparr>isSpeaking := False\<rparr>))"

text \<open>
  The body of the 300 ms timer: the next queued request is spoken by a nested call of
  \<^verbatim>\<open>speak\<close> whose promise settles \<open>p\<close>.
\<close>

definition postSpeech :: "nat \<Rightarrow> service \<Rightarrow> service" where
  "postSpeech p s =
     (case speechQueue s of
        (text, opts) # rest \<Rightarrow> speakAs p text opts (s\<lparr>speechQueue := rest\<rparr>)
      | [] \<Rightarrow> emit (Resolved p) (notifySpeechEnd s))"

definition silenceFired :: "service \<Rightarrow> service" where
  "silenceFired s =
     (if isListening s \<and> onRecognitionErrorCallback s
      then emit (RecognitionError (ErrorOfType ''silence_timeout'')) s
      else s)"

definition deliverResult :: "string \<Rightarrow> service \<Rightarrow> service" where
  "deliverResult text s =
     (if onRecognitionResultCallback s then emit (RecognitionResult text) s else s)"

text \<open>
  The recogniser's \<^verbatim>\<open>result\<close> listener, for an event whose first result carries
  \<open>transcript\<close> (empty when the event has none) and whose finality is \<open>isFinal\<close>.
\<close>

definition resultListener :: "string \<Rightarrow> bool \<Rightarrow> service \<Rightarrow> service" where
  "resultListener transcript isFinal s =
     (let s1 = clearSilenceTimeout s
      in if transcript \<noteq> [] \<and> jsTrim transcript \<noteq> [] \<and> onRecognitionResultCallback s1
         then (if isFinal
               then suspend (ResultCallback (jsTrim transcript)) (s1\<lparr>isListening := False\<rparr>)
               else s1)
         else s1)"

text \<open>The recogniser's \<^verbatim>\<open>error\<close> listener; \<open>code\<close> is \<^verbatim>\<open>error.error\<close>, empty when absent.\<close>

definition errorListener :: "string \<Rightarrow> service \<Rightarrow> service" where
  "errorListener code s =
     (let s1 = (clearSilenceTimeout s)\<lparr>isListening := False\<rparr>
      in if onRecognitionErrorCallback s1
         then emit (RecognitionError (ErrorOfType (if code = [] then ''unknown'' else code))) s1
         else s1)"

subsection \<open>The event loop\<close>

text \<open>
  An event is a call of a public method, a timer coming due, or a callback from an engine.
  A timer or engine event for a task that is not pending does nothing; engine \<^verbatim>\<open>result\<close>
  and \<^verbatim>\<open>error\<close> events reach the service only while its listeners are subscribed.
\<close>

datatype event =
    CallSpeak string options
  | CallStopSpeaking
  | CallStartListening options
  | CallStopListening
  | CallAbortListening
  | CallCleanup
  | SetOnSpeechEnd bool
  | SetOnRecognitionResult bool
  | SetOnRecognitionError bool
  | Due task
  | TtsDone nat
  | TtsStopped nat
  | TtsError nat
  | SttResult string bool
  | SttError string
  | EngineStartThrows bool

fun resume :: "task \<Rightarrow> service \<Rightarrow> service" where
  "resume (SpeakDelay text opts p) s = beginSpeech p text opts s"
| "resume (ListenDelay opts p) s = listenBody opts p s"
| "resume (Utterance u p) s = s"
| "resume (PostSpeech p) s = postSpeech p s"
| "resume (SilenceTimer t) s = silenceFired s"
| "resume (ResultCallback text) s = deliverResult text s"

definition take_task :: "task \<Rightarrow> service \<Rightarrow> service" where
  "take_task t s = s\<lparr>pending := remove1 t (pending s)\<rparr>"

fun utterancePromise :: "nat \<Rightarrow> task list \<Rightarrow> nat option" where
  "utterancePromise u [] = None"
| "utterancePromise u (Utterance v p # ts) = (if u = v then Some p else utterancePromise u ts)"
| "utterancePromise u (_ # ts) = utterancePromise u ts"

definition engineCallback :: "nat \<Rightarrow> (nat \<Rightarrow> service \<Rightarrow> service) \<Rightarrow> service \<Rightarrow> service" where
  "engineCallback u k s =
     (case utterancePromise u (pending s) of
        Some p \<Rightarrow> k p (take_task (Utterance u p) s)
      | None \<Rightarrow> s)"

fun step :: "service \<Rightarrow> event \<Rightarrow> service" where
  "step s (CallSpeak text opts) = speak text opts s"
| "step s CallStopSpeaking = stopSpeaking s"
| "step s (CallStartListening opts) = startListening opts s"
| "step s CallStopListening = stopListening s"
| "step s CallAbortListening = abortListening s"
| "step s CallCleanup = cleanup s"
| "step s (SetOnSpeechEnd b) = s\<lparr>onSpeechEndCallback := b\<rparr>"
| "step s (SetOnRecognitionResult b) = s\<lparr>onRecognitionResultCallback := b\<rparr>"
| "step s (SetOnRecognitionError b) = s\<lparr>onRecognitionErrorCallback := b\<rparr>"
| "step s (Due t) =
     (if t \<in> set (pending s) \<and> delay t \<noteq> None then resume t (take_task t s) else s)"
| "step s (TtsDone u) = engineCallback u onDone s"
| "step s (TtsStopped u) = engineCallback u onStopped s"
| "step s (TtsError u) = engineCallback u onError s"
| "step s (SttResult transcript isFinal) =
     (if currentRecognitionSubscriptions s then resultListener transcript isFinal s else s)"
| "step s (SttError code) =
     (if currentRecognitionSubscriptions s then errorListener code s else s)"
| "step s (EngineStartThrows b) = s\<lparr>startThrows := b\<rparr>"

definition run :: "service \<Rightarrow> event list \<Rightarrow> service" where
  "run s evs = foldl step s evs"

definition spoken :: "service \<Rightarrow> string list" where
  "spoken s = [text. TtsSpeak u text \<leftarrow> effects s]"

text \<open>The texts handed to the TTS engine so far, and the texts a run is asked to speak.\<close>

definition requested :: "event list \<Rightarrow> string list" where
  "requested evs = [text. CallSpeak text opts \<leftarrow> evs]"

text \<open>
  The texts the service still holds: queued requests, and \<^verbatim>\<open>speak\<close> calls waiting their
  500 ms.
\<close>

definition waitingTexts :: "service \<Rightarrow> string list" where
  "waitingTexts s = map fst (speechQueue s) @ [text. SpeakDelay text opts p \<leftarrow> pending s]"

text \<open>Timer handles are fresh: no armed silence timer carries a number not yet given out.\<close>

definition timersFresh :: "service \<Rightarrow> bool" where
  "timersFresh s = (\<forall>t. SilenceTimer t \<in> set (pending s) \<longrightarrow> t < nextId s)"

definition held :: "service \<Rightarrow> string set" where
  "held s = set (spoken s) \<union> set (waitingTexts s)"

text \<open>
  The queue left alone: \<open>drain n\<close> lets the engine finish the current utterance and the
  300 ms timer fire, \<open>n\<close> times over, with no call of the service in between.
\<close>

fun firstUtterance :: "task list \<Rightarrow> (nat \<times> nat) option" where
  "firstUtterance [] = None"
| "firstUtterance (Utterance u p # ts) = Some (u, p)"
| "firstUtterance (_ # ts) = firstUtterance ts"

fun drain :: "nat \<Rightarrow> service \<Rightarrow> service" where
  "drain 0 s = s"
| "drain (Suc n) s =
     (case firstUtterance (pending s) of
        Some (u, p) \<Rightarrow> drain n (run s [TtsDone u, Due (PostSpeech p)])
      | None \<Rightarrow> s)"

section \<open>Regular expressions\<close>

text \<open>
  The regular expressions of the screens use literals, character classes, \<^verbatim>\<open>\b\<close>,
  \<^verbatim>\<open>$\<close>, alternation, optional groups, one capturing group, and \<^verbatim>\<open>*\<close> and \<^verbatim>\<open>+\<close> on a
  character class.  This is their abstract syntax.
\<close>

datatype regex =
    Lit string
  | Class "char list"
  | WordBoundary
  | EndOfInput
  | Seq regex regex
  | Alt regex regex
  | Opt regex
  | Star "char list"
  | Plus "char list"
  | Group regex

text \<open>\<^verbatim>\<open>\w\<close>, on which \<^verbatim>\<open>\b\<close> rests: ASCII letters, digits and the underscore.\<close>

definition isWordChar :: "char \<Rightarrow> bool" where
  "isWordChar c =
     (let n = (of_char c :: nat)
      in (48 \<le> n \<and> n \<le> 57) \<or> (65 \<le> n \<and> n \<le> 90) \<or> n = 95 \<or> (97 \<le> n \<and> n \<le> 122))"

definition wordAt :: "string \<Rightarrow> nat \<Rightarrow> bool" where
  "wordAt s i = (i < length s \<and> isWordChar (s ! i))"

definition boundaryAt :: "string \<Rightarrow> nat \<Rightarrow> bool" where
  "boundaryAt s p = ((p > 0 \<and> wordAt s (p - 1)) \<noteq> wordAt s p)"

text \<open>
  With the \<^verbatim>\<open>i\<close> flag two code units match when their canonical (upper-case) forms are
  equal; without it, when they are equal.
\<close>

definition canonicalize :: "bool \<Rightarrow> char \<Rightarrow> char" where
  "canonicalize ignoreCase c = (if ignoreCase then upperChar c else c)"

definition inClass :: "bool \<Rightarrow> char list \<Rightarrow> char \<Rightarrow> bool" where
  "inClass ic cs c = (canonicalize ic c \<in> set (map (canonicalize ic) cs))"

text \<open>The length of the longest run of class members that starts at position \<open>p\<close>.\<close>

definition classRun :: "bool \<Rightarrow> char list \<Rightarrow> string \<Rightarrow> nat \<Rightarrow> nat" where
  "classRun ic cs s p = length (takeWhile (inClass ic cs) (drop p s))"

text \<open>
  A backtracking matcher.  A match state is the position reached and the text captured by
  the group, if any.  \<open>matches ic s r st\<close> lists the states in which a match of \<open>r\<close> that
  starts in state \<open>st\<close> can end, in the order in which a backtracking engine tries them
  (the left alternative first, an optional part first taken and then skipped, the longest
  repetition first); the engine takes the first that lets the rest of the pattern match.
\<close>

type_synonym matchState = "nat \<times> string option"

primrec matches :: "bool \<Rightarrow> string \<Rightarrow> regex \<Rightarrow> matchState \<Rightarrow> matchState list" where
  "matches ic s (Lit l) st =
     (if map (canonicalize ic) (take (length l) (drop (fst st) s)) = map (canonicalize ic) l
      then [(fst st + length l, snd st)] else [])"
| "matches ic s (Class cs) st =
     (if fst st < length s \<and> inClass ic cs (s ! fst st) then [(fst st + 1, snd st)] else [])"
| "matches ic s WordBoundary st = (if boundaryAt s (fst st) then [st] else [])"
| "matches ic s EndOfInput st = (if fst st = length s then [st] else [])"
| "matches ic s (Seq a b) st = concat (map (matches ic s b) (matches ic s a st))"
| "matches ic s (Alt a b) st = matches ic s a st @ matches ic s b st"
| "matches ic s (Opt a) st = matches ic s a st @ [st]"
| "matches ic s (Star cs) st =
     map (\<lambda>k. (fst st + k, snd st)) (rev [0..<Suc (classRun ic cs s (fst st))])"
| "matches ic s (Plus cs) st =
     map (\<lambda>k. (fst st + k, snd st)) (rev [1..<Suc (classRun ic cs s (fst st))])"
| "matches ic s (Group a) st =
     map (\<lambda>e. (fst e, Some (take (fst e - fst st) (drop (fst st) s)))) (matches ic s a st)"

text \<open>
  A match found: where it starts, where it ends, and the captured text.  \<open>search\<close> tries
  the start positions in turn and returns the first match; \<open>jsMatch\<close> is
  \<^verbatim>\<open>s.match(r)\<close> for a pattern without the \<^verbatim>\<open>g\<close> flag.
\<close>

type_synonym matched = "nat \<times> nat \<times> string option"

fun search :: "bool \<Rightarrow> regex \<Rightarrow> string \<Rightarrow> nat list \<Rightarrow> matched option" where
  "search ic r s [] = None"
| "search ic r s (q # qs) =
     (case matches ic s r (q, None) of
        [] \<Rightarrow> search ic r s qs
      | e # _ \<Rightarrow> Some (q, fst e, snd e))"

definition jsMatch :: "bool \<Rightarrow> regex \<Rightarrow> string \<Rightarrow> matched option" where
  "jsMatch ic r s = search ic r s [0..<Suc (length s)]"

text \<open>
  \<^verbatim>\<open>s.matchAll(r)\<close> for a pattern with the \<^verbatim>\<open>g\<close> flag: after a match the search goes on
  where the match ended, one position further when the match was empty.
\<close>

function searchAll :: "bool \<Rightarrow> regex \<Rightarrow> string \<Rightarrow> nat list \<Rightarrow> matched list" where
  "searchAll ic r s [] = []"
| "searchAll ic r s (q # qs) =
     (case matches ic s r (q, None) of
        [] \<Rightarrow> searchAll ic r s qs
      | e # _ \<Rightarrow> (q, fst e, snd e)
                 # searchAll ic r s
                     (dropWhile (\<lambda>q'. q' < (if fst e = q then Suc q else fst e)) qs))"
  by pat_completeness auto
termination
  by (relation "measure (\<lambda>(ic, r, s, qs). length qs)")
     (auto simp: le_imp_less_Suc length_dropWhile_le)

definition matchAll :: "bool \<Rightarrow> regex \<Rightarrow> string \<Rightarrow> matched list" where
  "matchAll ic r s = searchAll ic r s [0..<Suc (length s)]"


section \<open>The screens\<close>

text \<open>
  The screen context service holds the logical screen that owns voice input:
  \<^verbatim>\<open>"HOME"\<close>, \<^verbatim>\<open>"EXAM"\<close> or \<^verbatim>\<open>null\<close>.
\<close>

datatype screenContext = HOME | EXAM

text \<open>
  What a screen asks of the speech service, of the submission sink and of navigation, in
  the order of the calls.  Calls of the speech service are taken to return normally.
  \<^item> \<open>Say text\<close>: \<^verbatim>\<open>speechService.speak(text)\<close>;
  \<^item> \<open>AnnounceScores\<close>: \<^verbatim>\<open>speechService.speak(scoresMessage)\<close>;
  \<^item> \<open>StartListening\<close>: \<^verbatim>\<open>speechService.startListening()\<close>; \<open>StartListeningUnlessSpeaking\<close>
    the same under the guard \<^verbatim>\<open>!speechService.isSpeaking\<close>, \<open>StartListeningIfIdle\<close> under the
    guard \<^verbatim>\<open>!speechService.isListening && !speechService.isSpeaking\<close>;
  \<^item> \<open>ListenLater ms\<close>: \<^verbatim>\<open>setTimeout\<close> of a guarded \<^verbatim>\<open>speechService.startListening()\<close>
    (home screen);
  \<^item> \<open>SubmitExam answers\<close>: \<^verbatim>\<open>gradeExam\<close> and \<^verbatim>\<open>submitExam\<close> with these answers;
  \<^item> \<open>Timer ms\<close>: a timer set by \<^verbatim>\<open>setTimeout\<close> that has not fired yet.
\<close>

datatype action =
    Say string
  | StopListening
  | StopSpeaking
  | Cleanup
  | StartListening
  | StartListeningUnlessSpeaking
  | StartListeningIfIdle
  | ListenLater nat
  | SubmitExam "(string \<times> string) list"
  | AnnounceScores
  | NavigateHome
  | NavigateToExam nat
  | GoBack
  | Timer nat

record screen =
  currentScreenContext :: "screenContext option"
  isProcessingCommand :: bool
  actions :: "action list"

definition act :: "action list \<Rightarrow> 'a screen_scheme \<Rightarrow> 'a screen_scheme" where
  "act as p = p\<lparr>actions := actions p @ as\<rparr>"

definition isCommandValid :: "'a screen_scheme \<Rightarrow> screenContext option \<Rightarrow> bool" where
  "isCommandValid p ctx = (if currentScreenContext p \<noteq> ctx then False else True)"

section \<open>The exam screen (src/screens/student/ExamPage.js)\<close>

subsection \<open>Option letters\<close>

definition whitespace :: "char list" where
  "whitespace = map char_of [9, 10, 11, 12, 13, 32, 160 :: nat]"

text \<open>\<^verbatim>\<open>/\b(?:select|choose|pick)\s+(?:option\s+)?([a-d])\s*$/i\<close>\<close>

definition endPattern1 :: regex where
  "endPattern1 =
     Seq WordBoundary
      (Seq (Alt (Lit ''select'') (Alt (Lit ''choose'') (Lit ''pick'')))
      (Seq (Plus whitespace)
      (Seq (Opt (Seq (Lit ''option'') (Plus whitespace)))
      (Seq (Group (Class ''abcd''))
      (Seq (Star whitespace) EndOfInput)))))"

text \<open>\<^verbatim>\<open>/\b(?:option\s+)?([a-d])\s*$/i\<close>\<close>

definition endPattern2 :: regex where
  "endPattern2 =
     Seq WordBoundary
      (Seq (Opt (Seq (Lit ''option'') (Plus whitespace)))
      (Seq (Group (Class ''abcd''))
      (Seq (Star whitespace) EndOfInput)))"

definition endPatterns :: "regex list" where
  "endPatterns = [endPattern1, endPattern2]"

text \<open>\<^verbatim>\<open>/\b(?:option\s+)?([a-d])\b/i\<close>, also used with the \<^verbatim>\<open>g\<close> flag.\<close>

definition letterPattern :: regex where
  "letterPattern =
     Seq WordBoundary
      (Seq (Opt (Seq (Lit ''option'') (Plus whitespace)))
      (Seq (Group (Class ''abcd'')) WordBoundary))"

text \<open>
  \<^verbatim>\<open>match[1].toUpperCase()\<close> of a match.  In the three patterns the group takes part in
  every match.
\<close>

definition letterOf :: "matched \<Rightarrow> string option" where
  "letterOf m = map_option toUpperCase (snd (snd m))"

text \<open>The loop over \<^verbatim>\<open>endPatterns\<close>: the first pattern that matches gives the letter.\<close>

fun endLoop :: "regex list \<Rightarrow> string \<Rightarrow> string option" where
  "endLoop [] command = None"
| "endLoop (pattern # rest) command =
     (case jsMatch True pattern command of
        Some m \<Rightarrow> letterOf m
      | None \<Rightarrow> endLoop rest command)"

text \<open>
  The three steps that set \<^verbatim>\<open>selectedLetter\<close> in \<^verbatim>\<open>handleVoiceCommand\<close>; each later
  step runs only if the letter is still unset.
\<close>

definition selectedLetter :: "string \<Rightarrow> string option" where
  "selectedLetter command =
     (let selected = endLoop endPatterns command;
          selected = (if selected = None
                      then (case jsMatch True letterPattern (sliceLast 15 command) of
                              Some lastMatch \<Rightarrow> letterOf lastMatch
                            | None \<Rightarrow> selected)
                      else selected);
          selected = (if selected = None
                      then (case matchAll True letterPattern command of
                              [] \<Rightarrow> selected
                            | allMatches \<Rightarrow> letterOf (last allMatches))
                      else selected)
      in selected)"

subsection \<open>The screen state\<close>

datatype questionType = MultipleChoice | Written

record question =
  questionId :: string
  questionText :: string
  questionType :: questionType
  options :: "string list"

text \<open>
  The state and refs of the component that the voice handlers read and write.  \<open>exam\<close> is
  the list of questions once the exam is loaded, \<open>userUid\<close> whether a user is signed in,
  \<open>answers\<close> pairs question ids with answers, \<open>submissionFails\<close> says whether the
  submission sink will throw.
\<close>

record examPage = screen +
  isWaitingForConfirmation :: bool
  exam :: "question list option"
  userUid :: bool
  currentQuestionIndex :: nat
  totalQuestions :: nat
  answers :: "(string \<times> string) list"
  submitting :: bool
  timeRemaining :: int
  submissionFails :: bool

definition currentQuestion :: "examPage \<Rightarrow> question option" where
  "currentQuestion p =
     (case exam p of
        None \<Rightarrow> None
      | Some qs \<Rightarrow> if currentQuestionIndex p < length qs
                   then Some (qs ! currentQuestionIndex p) else None)"

text \<open>\<^verbatim>\<open>totalQuestionsRef.current || currentExam?.questions?.length || 0\<close>\<close>

definition totalQuestionsOf :: "examPage \<Rightarrow> nat" where
  "totalQuestionsOf p =
     (if totalQuestions p \<noteq> 0 then totalQuestions p
      else case exam p of Some qs \<Rightarrow> length qs | None \<Rightarrow> 0)"

definition isLastQuestion :: "examPage \<Rightarrow> bool" where
  "isLastQuestion p = (int (currentQuestionIndex p) = int (totalQuestionsOf p) - 1)"

subsection \<open>Asynchronous code\<close>

text \<open>
  The handlers are \<^verbatim>\<open>async\<close> functions.  Where one awaits the speech engine, the
  submission sink or a timer it is suspended, and a countdown tick, another transcript or
  a timer callback may run before it goes on; what it then reads is the state of that
  moment.  An \<^verbatim>\<open>await\<close> of \<^verbatim>\<open>stopListening\<close>, \<^verbatim>\<open>stopSpeaking\<close> or \<^verbatim>\<open>cleanup\<close> is no such
  point: these functions wait for nothing themselves, so the caller goes on before any
  timer or engine event is handled.

  A piece of code run on a state gives a \<open>run\<close>:
  \<^item> \<open>Finished p\<close>: it has returned, leaving state \<open>p\<close>;
  \<^item> \<open>Awaiting p a k\<close>: it has left state \<open>p\<close> and waits for \<open>a\<close>; when \<open>a\<close> completes it
    goes on as \<open>k\<close> from the state of that moment;
  \<^item> \<open>Detached a k r\<close>: it has set a timer, or called an \<^verbatim>\<open>async\<close> function without
    awaiting it, so that \<open>k\<close> will run when \<open>a\<close> completes, and has itself gone on as \<open>r\<close>.
\<close>

datatype run =
    Finished examPage
  | Awaiting examPage action "examPage \<Rightarrow> run"
  | Detached action "examPage \<Rightarrow> run" run

type_synonym code = "examPage \<Rightarrow> run"

text \<open>\<^verbatim>\<open>await speechService.speak(text)\<close> and the like: call, wait, go on as \<open>k\<close>.\<close>

definition await :: "action \<Rightarrow> code \<Rightarrow> code" where
  "await a k p = Awaiting (act [a] p) a k"

text \<open>\<^verbatim>\<open>await new Promise((resolve) => setTimeout(resolve, ms))\<close>\<close>

definition pause :: "nat \<Rightarrow> code \<Rightarrow> code" where
  "pause ms k p = Awaiting p (Timer ms) k"

text \<open>A call of an \<^verbatim>\<open>async\<close> function that is not awaited: the caller goes on as \<open>k\<close>
  as soon as the callee is suspended.\<close>

primrec detach :: "run \<Rightarrow> code \<Rightarrow> run" where
  "detach (Finished p) k = k p"
| "detach (Awaiting p a c) k = Detached a c (k p)"
| "detach (Detached a c r) k = Detached a c (detach r k)"

text \<open>
  A run that nothing interrupts: \<open>outcome\<close> is the state when the code has returned, each
  awaited call having completed in turn; \<open>detached\<close> lists what it has left behind.
\<close>

primrec outcome :: "run \<Rightarrow> examPage" where
  "outcome (Finished p) = p"
| "outcome (Awaiting p a k) = outcome (k p)"
| "outcome (Detached a k r) = outcome r"

primrec detached :: "run \<Rightarrow> (action \<times> code) list" where
  "detached (Finished p) = []"
| "detached (Awaiting p a k) = detached (k p)"
| "detached (Detached a k r) = (a, k) # detached r"

subsection \<open>Timer callbacks\<close>

definition listenInExam :: code where
  "listenInExam p =
     Finished (if currentScreenContext p = Some EXAM then act [StartListening] p else p)"

definition listenUnlessSpeaking :: code where
  "listenUnlessSpeaking p =
     Finished (if currentScreenContext p = Some EXAM
               then act [StartListeningUnlessSpeaking] p else p)"

definition listenIfIdle :: code where
  "listenIfIdle p =
     Finished (if currentScreenContext p = Some EXAM then act [StartListeningIfIdle] p else p)"

definition navigateHome :: code where
  "navigateHome p = Finished (act [NavigateHome] p)"

subsection \<open>Submission and the countdown\<close>

text \<open>
  \<^verbatim>\<open>submitExamAnswers\<close>, followed by \<open>k\<close>.  Its only guard is on the exam and the user.  The
  sink is awaited; if it throws (\<open>submissionFails\<close>), the handler of the \<^verbatim>\<open>catch\<close> speaks
  and clears \<open>submitting\<close>.  No metrics tracker is attached.
\<close>

definition submitExamAnswers :: "code \<Rightarrow> code" where
  "submitExamAnswers k p =
     (if exam p = None \<or> \<not> userUid p then k p
      else let p1 = act [StopListening, StopSpeaking]
                      (p\<lparr>submitting := True, isWaitingForConfirmation := False\<rparr>)
           in await (SubmitExam (answers p1))
                (\<lambda>q. if submissionFails q
                     then await (Say ''Failed to submit exam. Please try again.'')
                            (\<lambda>r. k (r\<lparr>submitting := False\<rparr>)) q
                     else await (Say ''Your exam has been submitted successfully.'')
                            (await AnnounceScores
                               (\<lambda>r. Detached (Timer 1000) navigateHome
                                      (k (r\<lparr>currentScreenContext := Some HOME\<rparr>)))) q)
                p1)"

definition handleAutoSubmit :: "code \<Rightarrow> code" where
  "handleAutoSubmit k p = submitExamAnswers k p"

text \<open>
  One tick of the countdown.  The interval exists only while an exam is loaded, time
  remains and no submission is under way; at one second or less it calls
  \<^verbatim>\<open>handleAutoSubmit\<close>, without awaiting it, and sets the remaining time to zero.
\<close>

definition timerTick :: code where
  "timerTick p =
     (if exam p = None \<or> timeRemaining p \<le> 0 \<or> submitting p then Finished p
      else if timeRemaining p \<le> 1
      then detach (handleAutoSubmit Finished p) (\<lambda>q. Finished (q\<lparr>timeRemaining := 0\<rparr>))
      else Finished (p\<lparr>timeRemaining := timeRemaining p - 1\<rparr>))"

subsection \<open>Voice commands\<close>

definition saveAnswer :: "string \<Rightarrow> examPage \<Rightarrow> examPage" where
  "saveAnswer answer p =
     (case currentQuestion p of
        None \<Rightarrow> p
      | Some q \<Rightarrow>
          let trimmedAnswer = jsTrim answer
          in if trimmedAnswer = [] then p
             else p\<lparr>answers := filter (\<lambda>entry. fst entry \<noteq> questionId q) (answers p)
                                  @ [(questionId q, trimmedAnswer)]\<rparr>)"

text \<open>A number in decimal.\<close>

fun decimal :: "nat \<Rightarrow> string" where
  "decimal n = (if n < 10 then [char_of (48 + n)]
                else decimal (n div 10) @ [char_of (48 + n mod 10)])"

text \<open>The loop of \<^verbatim>\<open>readCurrentQuestion\<close> over the options, from \<open>index\<close> on.\<close>

fun readOptions :: "nat \<Rightarrow> string list \<Rightarrow> code \<Rightarrow> code" where
  "readOptions index [] k = k"
| "readOptions index (opt # rest) k =
     await (Say (''Option '' @ [char_of (65 + index)] @ '': '' @ opt @ ''. ''))
       (if rest \<noteq> [] then pause 200 (readOptions (index + 1) rest k)
        else readOptions (index + 1) rest k)"

definition readCurrentQuestion :: "code \<Rightarrow> code" where
  "readCurrentQuestion k p =
     (case currentQuestion p of
        None \<Rightarrow> k p
      | Some q \<Rightarrow>
          await (Say (''Question '' @ decimal (currentQuestionIndex p + 1) @ ''. ''
                      @ questionText q @ ''. ''))
            (pause 300
               (if questionType q = MultipleChoice \<and> options q \<noteq> []
                then readOptions 0 (options q) k else k))
            p)"

definition handleNextQuestion :: "code \<Rightarrow> code" where
  "handleNextQuestion k p =
     (if exam p = None \<or> totalQuestionsOf p = 0 then k p
      else if int (currentQuestionIndex p) < int (totalQuestionsOf p) - 1
      then Detached (Timer 300) (readCurrentQuestion Finished)
             (k (p\<lparr>currentQuestionIndex := currentQuestionIndex p + 1\<rparr>))
      else readCurrentQuestion k p)"

definition handlePreviousQuestion :: "code \<Rightarrow> code" where
  "handlePreviousQuestion k p =
     (if currentQuestionIndex p > 0
      then Detached (Timer 300) (readCurrentQuestion Finished)
             (k (p\<lparr>currentQuestionIndex := currentQuestionIndex p - 1\<rparr>))
      else await (Say ''You are already on the first question.'') k p)"

definition handleSubmitCommand :: "code \<Rightarrow> code" where
  "handleSubmitCommand k p =
     await (Say ''Are you sure you want to submit the exam? Say yes to confirm or no to cancel.'')
       (\<lambda>q. Detached (Timer 1000) listenIfIdle (k q))
       (p\<lparr>isWaitingForConfirmation := True\<rparr>)"

definition handleExitCommand :: "code \<Rightarrow> code" where
  "handleExitCommand k p =
     await (Say ''Exiting exam.'')
       (\<lambda>q. k (act [GoBack] ((act [Cleanup] q)\<lparr>currentScreenContext := Some HOME\<rparr>))) p"

text \<open>The block under \<^verbatim>\<open>if (selectedLetter)\<close>, which ends in \<^verbatim>\<open>return\<close> on both paths.\<close>

definition selectOption :: "string \<Rightarrow> question \<Rightarrow> code \<Rightarrow> code" where
  "selectOption letter q k p =
     (let optionIndex = (of_char (hd letter) :: nat) - 65
      in if optionIndex < length (options q)
         then let selectedOption = options q ! optionIndex;
                  p1 = saveAnswer selectedOption p
              in await (Say (if isLastQuestion p
                             then ''Option '' @ letter @ '' selected: '' @ selectedOption
                               @ ''. This is the last question. Say submit to finish the exam.''
                             else ''Option '' @ letter @ '' selected: '' @ selectedOption
                               @ ''. Say next question to continue.''))
                   (\<lambda>r. Detached (Timer 1500) listenUnlessSpeaking
                          (k (r\<lparr>isProcessingCommand := False\<rparr>)))
                   p1
         else await (Say ''Invalid option. Please choose A, B, C, or D.'')
                (\<lambda>r. Detached (Timer 1500) listenUnlessSpeaking
                       (k (r\<lparr>isProcessingCommand := False\<rparr>)))
                p)"

text \<open>The chain of \<^verbatim>\<open>command.includes(...)\<close> tests for navigation and control.\<close>

definition control :: "string \<Rightarrow> code \<Rightarrow> code" where
  "control command k p =
     (if jsIncludes command ''next''
      then (if isLastQuestion p
            then await (Say ''You are on the last question. Please select an answer, then say submit to finish the exam.'') k p
            else handleNextQuestion k p)
      else if jsIncludes command ''previous'' \<or> jsIncludes command ''back''
      then handlePreviousQuestion k p
      else if jsIncludes command ''repeat'' \<or> jsIncludes command ''read''
              \<or> jsIncludes command ''again''
      then readCurrentQuestion k p
      else if jsIncludes command ''submit'' \<or> jsIncludes command ''finish''
      then handleSubmitCommand k p
      else if jsIncludes command ''exit'' \<or> jsIncludes command ''quit''
              \<or> jsIncludes command ''leave''
      then handleExitCommand k p
      else await (Say ''Sorry, I did not understand that command. Please try again.'') k p)"

text \<open>The \<^verbatim>\<open>try\<close> block of \<^verbatim>\<open>handleVoiceCommand\<close>, followed by \<open>k\<close>, and its \<^verbatim>\<open>finally\<close>,
  which also runs after the \<^verbatim>\<open>return\<close> of the option branch.\<close>

definition tryBlock :: "string \<Rightarrow> code \<Rightarrow> code" where
  "tryBlock command k p =
     (let p1 = act [StopListening] p
      in case currentQuestion p1 of
           None \<Rightarrow> control command k p1
         | Some q \<Rightarrow>
             if questionType q = MultipleChoice
             then (case selectedLetter command of
                     Some letter \<Rightarrow> selectOption letter q k p1
                   | None \<Rightarrow> control command k p1)
             else control command k p1)"

definition finallyBlock :: code where
  "finallyBlock p =
     (let p1 = p\<lparr>isProcessingCommand := False\<rparr>
      in if \<not> isWaitingForConfirmation p1
         then Detached (Timer 500) listenInExam (Finished p1) else Finished p1)"

text \<open>
  What the \<^verbatim>\<open>yes\<close> branch does once \<^verbatim>\<open>Submitting exam.\<close> has been spoken, and the
  callback of the 500 ms timer of the \<^verbatim>\<open>no\<close> branch, which reads the question and only
  then sets the 1000 ms timer that re-opens listening.
\<close>

definition confirmedSubmit :: code where
  "confirmedSubmit p = submitExamAnswers Finished (p\<lparr>isWaitingForConfirmation := False\<rparr>)"

definition rereadThenListen :: code where
  "rereadThenListen p =
     readCurrentQuestion (\<lambda>q. Detached (Timer 1000) listenIfIdle (Finished q)) p"

definition handleVoiceCommand :: "string \<Rightarrow> code" where
  "handleVoiceCommand transcript p =
     (if isProcessingCommand p then Finished p
      else if transcript = [] then Finished p
      else let command = jsTrim (toLowerCase transcript)
           in if currentScreenContext p \<noteq> Some EXAM then Finished p
              else if isWaitingForConfirmation p \<and> command = ''yes''
              then await (Say ''Submitting exam.'') confirmedSubmit
                     (act [StopListening] (p\<lparr>isProcessingCommand := True\<rparr>))
              else if isWaitingForConfirmation p \<and> command = ''no''
              then await (Say ''Returning to current question.'')
                     (\<lambda>q. Detached (Timer 500) rereadThenListen
                            (Finished (q\<lparr>isWaitingForConfirmation := False,
                                         isProcessingCommand := False\<rparr>)))
                     (act [StopListening] (p\<lparr>isProcessingCommand := True\<rparr>))
              else tryBlock command finallyBlock (p\<lparr>isProcessingCommand := True\<rparr>))"

subsection \<open>The screen in the event loop\<close>

text \<open>
  The screen with what is suspended.  An event is a transcript delivered by the speech
  service, a tick of the countdown, or the completion of the \<open>n\<close>-th suspended item: the
  awaited call returns, or the timer fires.
\<close>

type_synonym examScreen = "examPage \<times> (action \<times> code) list"

primrec settle :: "run \<Rightarrow> (action \<times> code) list \<Rightarrow> examScreen" where
  "settle (Finished p) waiting = (p, waiting)"
| "settle (Awaiting p a k) waiting = (p, waiting @ [(a, k)])"
| "settle (Detached a k r) waiting = settle r (waiting @ [(a, k)])"

datatype examEvent = Hear string | Tick | Complete nat

fun examStep :: "examScreen \<Rightarrow> examEvent \<Rightarrow> examScreen" where
  "examStep (p, waiting) (Hear transcript) = settle (handleVoiceCommand transcript p) waiting"
| "examStep (p, waiting) Tick = settle (timerTick p) waiting"
| "examStep (p, waiting) (Complete n) =
     (if n < length waiting
      then settle (snd (waiting ! n) p) (take n waiting @ drop (Suc n) waiting)
      else (p, waiting))"

definition examRun :: "examScreen \<Rightarrow> examEvent list \<Rightarrow> examScreen" where
  "examRun sc evs = foldl examStep sc evs"

text \<open>How often a run of the screen has called the submission sink.\<close>

fun isSubmitExam :: "action \<Rightarrow> bool" where
  "isSubmitExam (SubmitExam ans) = True"
| "isSubmitExam _ = False"

definition submissions :: "'a screen_scheme \<Rightarrow> nat" where
  "submissions p = length (filter isSubmitExam (actions p))"


subsection \<open>Option letters, as the specification words them\<close>

text \<open>
  The specification's order of search, written without regular expressions.  A letter of
  the command is an option letter when it is one of a to d, in either case.  It stands
  alone when no word character is next to it.  It is anchored at the end when it is
  not preceded by a word character and only white space follows it; this is how the
  phrases \<^verbatim>\<open>select option X\<close>, \<^verbatim>\<open>choose X\<close>, \<^verbatim>\<open>option X\<close> and a bare \<^verbatim>\<open>X\<close> end.
  \<^enum> the letter anchored at the end of the command;
  \<^enum> else the first letter standing alone in the final 15 characters;
  \<^enum> else the last letter standing alone anywhere in the command.
\<close>

definition isOptionLetter :: "char \<Rightarrow> bool" where
  "isOptionLetter c = (upperChar c \<in> set ''ABCD'')"

definition standsAlone :: "string \<Rightarrow> nat \<Rightarrow> bool" where
  "standsAlone s i =
     (i < length s \<and> isOptionLetter (s ! i)
      \<and> \<not> (0 < i \<and> isWordChar (s ! (i - 1)))
      \<and> \<not> (Suc i < length s \<and> isWordChar (s ! Suc i)))"

definition anchoredAtEnd :: "string \<Rightarrow> nat \<Rightarrow> bool" where
  "anchoredAtEnd s i =
     (i < length s \<and> isOptionLetter (s ! i)
      \<and> \<not> (0 < i \<and> isWordChar (s ! (i - 1)))
      \<and> list_all isSpace (drop (Suc i) s))"

definition letterAt :: "string \<Rightarrow> nat \<Rightarrow> string" where
  "letterAt s i = [upperChar (s ! i)]"

definition specEndLetter :: "string \<Rightarrow> string option" where
  "specEndLetter command =
     (case filter (anchoredAtEnd command) [0..<length command] of
        [] \<Rightarrow> None
      | i # _ \<Rightarrow> Some (letterAt command i))"

definition specFirstLetter :: "string \<Rightarrow> string option" where
  "specFirstLetter s =
     (case filter (standsAlone s) [0..<length s] of
        [] \<Rightarrow> None
      | i # _ \<Rightarrow> Some (letterAt s i))"

definition specLastLetter :: "string \<Rightarrow> string option" where
  "specLastLetter s =
     (case filter (standsAlone s) [0..<length s] of
        [] \<Rightarrow> None
      | i # is \<Rightarrow> Some (letterAt s (last (i # is))))"

definition specSelectedLetter :: "string \<Rightarrow> string option" where
  "specSelectedLetter command =
     (case specEndLetter command of
        Some letter \<Rightarrow> Some letter
      | None \<Rightarrow>
          (case specFirstLetter (sliceLast 15 command) of
             Some letter \<Rightarrow> Some letter
           | None \<Rightarrow> specLastLetter command))"

text \<open>The optional part \<^verbatim>\<open>(?:option\s+)?\<close> that the three patterns share.\<close>

definition optPart :: regex where
  "optPart = Opt (Seq (Lit ''option'') (Plus whitespace))"


section \<open>The home screen (src/screens/student/HomePage.js)\<close>

text \<open>
  \<open>exams\<close> holds the titles of the listed exams; \<open>canAttempt\<close> and \<open>attemptMessage\<close> are the
  answer of \<^verbatim>\<open>canAttemptExam\<close>, \<open>lastSpokenMessage'\<close> that of
  \<^verbatim>\<open>speechService.getLastSpokenMessage()\<close>.
\<close>

record homePage = screen +
  exams :: "string list"
  homeUserUid :: bool
  canAttempt :: bool
  attemptMessage :: string
  lastSpokenMessage' :: "string option"

definition digitChars :: "char list" where
  "digitChars = ''0123456789''"

text \<open>\<^verbatim>\<open>/select exam number (\d+)/\<close> and \<^verbatim>\<open>/begin exam (\d+)/\<close>\<close>

definition selectExamPattern :: regex where
  "selectExamPattern = Seq (Lit ''select exam number '') (Group (Plus digitChars))"

definition beginExamPattern :: regex where
  "beginExamPattern = Seq (Lit ''begin exam '') (Group (Plus digitChars))"

text \<open>
  \<^verbatim>\<open>parseInt(digits, 10)\<close> on a string of decimal digits.  The result is a double: an
  integer up to \<open>2\<^sup>5\<^sup>3\<close> is exact, a larger one is rounded; a rounded result is only known
  here to lie beyond \<open>2\<^sup>5\<^sup>3\<close>, and so beyond the length of any array.
\<close>

datatype jsNumber = Exactly int | Beyond

definition parseInt :: "string \<Rightarrow> jsNumber" where
  "parseInt ds =
     (let n = foldl (\<lambda>n d. 10 * n + (of_char d - 48)) (0 :: int) ds
      in if n \<le> 2 ^ 53 then Exactly n else Beyond)"

definition handleListExams :: "homePage \<Rightarrow> homePage" where
  "handleListExams h =
     (if exams h = [] then act [Say ''No exams are available at this time.''] h
      else act [Say (''Available exams are: ''
                 @ concat (map (\<lambda>(i, title). ''Exam '' @ decimal (i + 1) @ '': '' @ title @ ''. '')
                               (enumerate 0 (exams h)))
                 @ ''Say begin exam followed by the exam number to start. For example, begin exam 1.'')] h)"

text \<open>
  \<^verbatim>\<open>handleSelectExam(examNumber)\<close>; \<open>index\<close> is \<^verbatim>\<open>examNumber - 1\<close> where that is a valid
  position, \<open>None\<close> under \<^verbatim>\<open>index < 0 || index >= currentExams.length\<close>.
\<close>

fun examIndex :: "jsNumber \<Rightarrow> nat \<Rightarrow> nat option" where
  "examIndex (Exactly n) len =
     (if n - 1 < 0 \<or> n - 1 \<ge> int len then None else Some (nat (n - 1)))"
| "examIndex Beyond len = None"

definition handleSelectExam :: "jsNumber \<Rightarrow> homePage \<Rightarrow> homePage" where
  "handleSelectExam examNumber h =
     (if exams h = [] then act [Say ''No exams are available.''] h
      else case examIndex examNumber (length (exams h)) of
        None \<Rightarrow>
          act [Say (''Invalid exam number. Please select a number between 1 and ''
                 @ decimal (length (exams h)) @ ''.'')] h
      | Some index \<Rightarrow>
          if \<not> homeUserUid h then act [Say ''You must be logged in to start an exam.''] h
          else if \<not> canAttempt h
          then act [Say (if attemptMessage h = [] then ''You cannot start this exam.''
                         else attemptMessage h)] h
          else act [NavigateToExam index]
                 ((act [Say (exams h ! index @ '' selected. Starting exam.'')] h)
                    \<lparr>currentScreenContext := Some EXAM\<rparr>))"

definition handleRepeat :: "homePage \<Rightarrow> homePage" where
  "handleRepeat h =
     (case lastSpokenMessage' h of
        Some lastMessage \<Rightarrow>
          if lastMessage \<noteq> [] then act [Say lastMessage] h
          else act [Say ''Welcome. You are on the home screen. Say list exams to hear available exams. Say begin exam followed by the number to start an exam. For example, begin exam 1.''] h
      | None \<Rightarrow> act [Say ''Welcome. You are on the home screen. Say list exams to hear available exams. Say begin exam followed by the number to start an exam. For example, begin exam 1.''] h)"

definition handleExit :: "homePage \<Rightarrow> homePage" where
  "handleExit h = act [Say ''Exiting application.'', Cleanup] h"

definition homeTryBlock :: "string \<Rightarrow> homePage \<Rightarrow> homePage" where
  "homeTryBlock command h =
     (let h1 = act [StopListening] h
      in if jsIncludes command ''list exams'' \<or> command = ''list exam'' then handleListExams h1
         else if jsIncludes command ''select exam number'' \<or> jsIncludes command ''begin exam''
         then (let m = (case jsMatch False selectExamPattern command of
                          Some m \<Rightarrow> Some m
                        | None \<Rightarrow> jsMatch False beginExamPattern command)
               in case m of
                    Some (_, _, Some digits) \<Rightarrow>
                      if digits \<noteq> [] then handleSelectExam (parseInt digits) h1
                      else act [Say ''Please say begin exam followed by the exam number. For example, begin exam 1.''] h1
                  | _ \<Rightarrow> act [Say ''Please say begin exam followed by the exam number. For example, begin exam 1.''] h1)
         else if command = ''repeat'' then handleRepeat h1
         else if command = ''exit'' then handleExit h1
         else act [Say ''Sorry, I did not understand that command. Please try again.''] h1)"

definition homeFinallyBlock :: "homePage \<Rightarrow> homePage" where
  "homeFinallyBlock h = act [ListenLater 500] (h\<lparr>isProcessingCommand := False\<rparr>)"

text \<open>
  \<^verbatim>\<open>handleVoiceCommand\<close> of the home screen, followed to its return in one piece: each
  call it awaits is taken to complete in turn, and \<open>ListenLater\<close> records the timer that
  its \<^verbatim>\<open>finally\<close> sets.
\<close>

definition homeHandleVoiceCommand :: "string \<Rightarrow> homePage \<Rightarrow> homePage" where
  "homeHandleVoiceCommand transcript h =
     (if isProcessingCommand h then h
      else if transcript = [] \<or> jsTrim transcript = [] then h
      else let command = jsTrim (toLowerCase transcript)
           in if currentScreenContext h \<noteq> Some HOME then h
              else homeFinallyBlock (homeTryBlock command (h\<lparr>isProcessingCommand := True\<rparr>)))"


section \<open>Example data\<close>

text \<open>A two-question exam on its first question, and a home screen listing two exams.\<close>

definition sampleQuestions :: "question list" where
  "sampleQuestions =
     [\<lparr>questionId = ''q1'', questionText = ''What is the capital of France'',
       questionType = MultipleChoice, options = [''Paris'', ''Rome'', ''Oslo'', ''Bern'']\<rparr>,
      \<lparr>questionId = ''q2'', questionText = ''Describe the water cycle'',
       questionType = Written, options = []\<rparr>]"

definition sampleExamPage :: examPage where
  "sampleExamPage =
     \<lparr>currentScreenContext = Some EXAM, isProcessingCommand = False, actions = [],
      isWaitingForConfirmation = False, exam = Some sampleQuestions, userUid = True,
      currentQuestionIndex = 0, totalQuestions = 2, answers = [], submitting = False,
      timeRemaining = 3600, submissionFails = False\<rparr>"

definition sampleHomePage :: homePage where
  "sampleHomePage =
     \<lparr>currentScreenContext = Some HOME, isProcessingCommand = False, actions = [],
      exams = [''Mathematics'', ''History''], homeUserUid = True, canAttempt = True,
      attemptMessage = [], lastSpokenMessage' = None\<rparr>"


section \<open>Properties of the speech service\<close>

lemmas service_defs = speak_def speakAs_def beginSpeech_def startListening_def listenBody_def
  stopListening_def abortListening_def stopSpeaking_def cleanup_def clearSilenceTimeout_def
  clearTimeout_def emit_def suspend_def notifySpeechEnd_def onDone_def onStopped_def
  onError_def postSpeech_def silenceFired_def deliverResult_def resultListener_def
  errorListener_def take_task_def engineCallback_def

subsection \<open>Turn-taking\<close>

text \<open>
  Claim C1: for every sequence of calls of \<^verbatim>\<open>speak\<close>, \<^verbatim>\<open>startListening\<close> and
  \<^verbatim>\<open>stopListening\<close>, \<open>isSpeaking\<close> and \<open>isListening\<close> are never both true.

  The service does not keep this.  \<^verbatim>\<open>speak\<close> called while listening stops the recogniser
  and waits 500 ms; it sets \<open>isSpeaking\<close> after the wait without looking at \<open>isListening\<close>
  again.  A \<^verbatim>\<open>startListening\<close> that arrives during the wait finds both flags false and
  sets \<open>isListening\<close>.  When the wait ends both flags are true.
\<close>

theorem mutual_exclusion_violated:
  "isSpeaking (run constructor [CallStartListening [], CallSpeak ''Question 1'' [],
       CallStartListening [], Due (SpeakDelay ''Question 1'' [] 2)])
   \<and> isListening (run constructor [CallStartListening [], CallSpeak ''Question 1'' [],
       CallStartListening [], Due (SpeakDelay ''Question 1'' [] 2)])"
  by code_simp

subsection \<open>The silence timeout\<close>

lemma timersFresh_constructor: "timersFresh constructor"
  by (simp add: timersFresh_def constructor_def)

lemma timersFresh_step: "timersFresh s \<Longrightarrow> timersFresh (step s e)"
proof (cases e)
  case (Due t)
  assume "timersFresh s"
  then show ?thesis using Due
    by (cases t) (auto simp: timersFresh_def service_defs Let_def less_Suc_eq
        dest!: set_remove1_subset [THEN subsetD] split: list.splits option.splits prod.splits)
next
  case (TtsDone u)
  assume "timersFresh s"
  then show ?thesis using TtsDone
    by (auto simp: timersFresh_def service_defs Let_def dest!: set_remove1_subset [THEN subsetD] split: option.splits)
next
  case (TtsStopped u)
  assume "timersFresh s"
  then show ?thesis using TtsStopped
    by (auto simp: timersFresh_def service_defs Let_def dest!: set_remove1_subset [THEN subsetD] split: option.splits)
next
  case (TtsError u)
  assume "timersFresh s"
  then show ?thesis using TtsError
    by (auto simp: timersFresh_def service_defs Let_def dest!: set_remove1_subset [THEN subsetD] split: option.splits)
qed (auto simp: timersFresh_def service_defs Let_def less_Suc_eq split: option.splits)

lemma timersFresh_run: "timersFresh s \<Longrightarrow> timersFresh (run s evs)"
  unfolding run_def by (induction evs arbitrary: s) (simp_all add: timersFresh_step)

lemma listenBody_started:
  assumes "\<not> startThrows s"
  shows "isListening (listenBody opts p s)"
    and "silenceTimeout (listenBody opts p s) = Some (nextId s)"
    and "isSpeaking (listenBody opts p s) = isSpeaking s"
    and "onRecognitionErrorCallback (listenBody opts p s) = onRecognitionErrorCallback s"
    and "\<exists>ts. pending (listenBody opts p s) = ts @ [SilenceTimer (nextId s)]
              \<and> set ts \<subseteq> set (pending s)"
  using assms
  by (auto simp: listenBody_def stopListening_def clearSilenceTimeout_def clearTimeout_def
      emit_def suspend_def Let_def split: option.splits)

text \<open>
  Claim C2, as stated: when the silence timer of \<^verbatim>\<open>startListening\<close> fires, one error of
  kind \<^verbatim>\<open>silence_timeout\<close> is delivered and \<open>isListening\<close> becomes false.

  The timer's callback only reports: it reads \<open>isListening\<close> as its guard and leaves it
  set, and the recogniser keeps running.  On a fresh service with an error callback
  registered, after \<^verbatim>\<open>startListening\<close> and the timer, the error has been delivered and
  \<open>isListening\<close> is still true.
\<close>

theorem silence_timeout_stays_listening:
  "isListening (run constructor
       [SetOnRecognitionError True, CallStartListening [], Due (SilenceTimer 1)])
   \<and> effects (run constructor
       [SetOnRecognitionError True, CallStartListening [], Due (SilenceTimer 1)])
     = [SttStart, Resolved 0, RecognitionError (ErrorOfType ''silence_timeout'')]"
  by code_simp

text \<open>
  Claim C2, amended: in any reachable state that is neither listening nor speaking, with
  an error callback registered and a recogniser that starts, \<^verbatim>\<open>startListening\<close> sets
  \<open>isListening\<close> and arms the silence timer of 10 s; when that timer fires next, exactly one
  \<^verbatim>\<open>silence_timeout\<close> error is delivered to the error callback and nothing else happens:
  \<open>isListening\<close> stays true, and the timer, having fired, cannot fire again.
\<close>

theorem silence_timeout_once:
  assumes reach: "s = run constructor evs"
    and idle: "\<not> isListening s" "\<not> isSpeaking s"
    and cb: "onRecognitionErrorCallback s"
    and ok: "\<not> startThrows s"
    and s1: "s1 = startListening opts s"
    and s2: "s2 = step s1 (Due (SilenceTimer (Suc (nextId s))))"
  shows "isListening s1 \<and> silenceTimeout s1 = Some (Suc (nextId s))
       \<and> delay (SilenceTimer (Suc (nextId s))) = Some 10000
       \<and> effects s2 = effects s1 @ [RecognitionError (ErrorOfType ''silence_timeout'')]
       \<and> isListening s2 \<and> \<not> isSpeaking s2
       \<and> step s2 (Due (SilenceTimer (Suc (nextId s)))) = s2"
proof -
  let ?t = "SilenceTimer (Suc (nextId s))"
  let ?s0 = "s\<lparr>nextId := Suc (nextId s)\<rparr>"
  have fresh: "timersFresh s"
    using reach timersFresh_run [OF timersFresh_constructor] by simp
  then have old: "?t \<notin> set (pending s)"
    by (auto simp: timersFresh_def)
  have s1': "s1 = listenBody opts (nextId s) ?s0"
    using idle by (simp add: s1 startListening_def Let_def)
  have ok0: "\<not> startThrows ?s0" using ok by simp
  note lb = listenBody_started [OF ok0, of opts "nextId s"]
  have l1: "isListening s1" and t1: "silenceTimeout s1 = Some (Suc (nextId s))"
    and sp1: "\<not> isSpeaking s1" and cb1: "onRecognitionErrorCallback s1"
    using lb(1-4) idle cb by (simp_all add: s1')
  obtain ts where ts: "pending s1 = ts @ [?t]" "set ts \<subseteq> set (pending s)"
    using lb(5) by (auto simp: s1')
  have notin: "?t \<notin> set ts" using ts(2) old by blast
  have rem: "remove1 ?t (pending s1) = ts"
    using notin by (simp add: ts(1) remove1_append)
  have s2': "s2 = emit (RecognitionError (ErrorOfType ''silence_timeout'')) (take_task ?t s1)"
    using l1 cb1 by (simp add: s2 ts(1) silenceTimeoutDuration_def silenceFired_def take_task_def)
  have p2: "pending s2 = ts"
    by (simp add: s2' emit_def take_task_def rem)
  have again: "step s2 (Due ?t) = s2"
    using notin by (simp add: p2)
  have "effects s2 = effects s1 @ [RecognitionError (ErrorOfType ''silence_timeout'')]"
    and "isListening s2" and "\<not> isSpeaking s2"
    using l1 sp1 by (simp_all add: s2' emit_def take_task_def)
  with l1 t1 again show ?thesis by (simp add: silenceTimeoutDuration_def)
qed

theorem silence_timeout_once_witness:
  "isListening (startListening [] (run constructor [SetOnRecognitionError True]))
   \<and> effects (step (startListening [] (run constructor [SetOnRecognitionError True]))
        (Due (SilenceTimer 1)))
     = [SttStart, Resolved 0, RecognitionError (ErrorOfType ''silence_timeout'')]"
proof -
  let ?s = "run constructor [SetOnRecognitionError True]"
  have h: "\<not> isListening ?s" "\<not> isSpeaking ?s" "onRecognitionErrorCallback ?s"
    "\<not> startThrows ?s" "nextId ?s = 0"
    by (simp_all add: run_def constructor_def)
  have e1: "effects (startListening [] ?s) = [SttStart, Resolved 0]"
    by code_simp
  show ?thesis
    using silence_timeout_once [OF refl h(1-4) refl refl, of "[]"] h(5) e1 by simp
qed

text \<open>
  The timer is cancelled by every \<^verbatim>\<open>result\<close> event, final or not: an interim result
  leaves the service listening with no silence timer armed.
\<close>

lemma interim_result_cancels_silence_timer:
  "pending (run constructor [SetOnRecognitionError True, SetOnRecognitionResult True,
       CallStartListening [], SttResult ''opt'' False]) = []
   \<and> isListening (run constructor [SetOnRecognitionError True, SetOnRecognitionResult True,
       CallStartListening [], SttResult ''opt'' False])"
  by code_simp

subsection \<open>The speech queue\<close>

text \<open>
  Left alone, the queue is first in, first out: while one utterance is being spoken and
  nothing else is pending, \<open>n\<close> rounds of completion speak the first \<open>n\<close> queued texts in
  the order of the queue.
\<close>

lemma drain_step:
  assumes "isSpeaking s" "\<not> isListening s" "pending s = [Utterance u p]"
    and "speechQueue s = (m, opts) # rest" and "jsTrim m \<noteq> []"
  shows "\<exists>s'. run s [TtsDone u, Due (PostSpeech p)] = s'
      \<and> isSpeaking s' \<and> \<not> isListening s' \<and> pending s' = [Utterance (nextId s) p]
      \<and> speechQueue s' = rest \<and> spoken s' = spoken s @ [m]"
proof -
  have "m \<noteq> []" using assms(5) by (auto simp: jsTrim_def)
  then show ?thesis
    using assms
    by (simp add: run_def engineCallback_def take_task_def onDone_def suspend_def
        postSpeech_def speakAs_def beginSpeech_def emit_def spoken_def Let_def)
qed

lemma drain_empty:
  assumes "pending s = [Utterance u p]" and "speechQueue s = []"
  shows "spoken (drain n s) = spoken s"
proof (cases n)
  case 0
  then show ?thesis by simp
next
  case (Suc k)
  let ?s' = "run s [TtsDone u, Due (PostSpeech p)]"
  have "pending ?s' = [] \<and> spoken ?s' = spoken s"
    using assms
    by (simp add: run_def engineCallback_def take_task_def onDone_def suspend_def
        postSpeech_def notifySpeechEnd_def emit_def spoken_def Let_def)
  then have "spoken (drain k ?s') = spoken s"
    by (cases k) simp_all
  then show ?thesis using assms(1) by (simp add: Suc)
qed

lemma queue_drains_in_order:
  assumes "isSpeaking s" and "\<not> isListening s" and "pending s = [Utterance u p]"
    and "\<forall>x \<in> set (speechQueue s). jsTrim (fst x) \<noteq> []"
  shows "spoken (drain n s) = spoken s @ map fst (take n (speechQueue s))"
  using assms
proof (induction n arbitrary: s u)
  case 0
  then show ?case by simp
next
  case (Suc n)
  show ?case
  proof (cases "speechQueue s")
    case Nil
    have "spoken (drain (Suc n) s) = spoken s"
      by (rule drain_empty [OF Suc.prems(3) Nil])
    then show ?thesis by (simp add: Nil del: drain.simps)
  next
    case (Cons x rest)
    obtain m opts where x: "x = (m, opts)" by (cases x)
    have nb: "jsTrim m \<noteq> []" using Suc.prems(4) Cons x by simp
    let ?s' = "run s [TtsDone u, Due (PostSpeech p)]"
    from drain_step [OF Suc.prems(1-3) Cons [unfolded x] nb]
    have s': "isSpeaking ?s'" "\<not> isListening ?s'" "pending ?s' = [Utterance (nextId s) p]"
      "speechQueue ?s' = rest" "spoken ?s' = spoken s @ [m]"
      by simp_all
    have "\<forall>x \<in> set (speechQueue ?s'). jsTrim (fst x) \<noteq> []"
      using Suc.prems(4) Cons s'(4) by simp
    from Suc.IH [OF s'(1-3) this]
    have "spoken (drain n ?s') = spoken s @ [m] @ map fst (take n rest)"
      by (simp add: s'(4,5))
    then show ?thesis
      using Suc.prems(3) by (simp add: Cons x)
  qed
qed

text \<open>
  Claim C5: requests made while speaking are spoken in arrival order; if \<^verbatim>\<open>speak(A)\<close>
  precedes \<^verbatim>\<open>speak(B)\<close> while speaking, B is spoken only after A.

  \<^verbatim>\<open>onDone\<close> clears \<open>isSpeaking\<close> and only 300 ms later takes the head of the queue and
  passes it to \<^verbatim>\<open>speak\<close>.  A \<^verbatim>\<open>speak\<close> that arrives in those 300 ms is spoken at
  once; the timer's own \<^verbatim>\<open>speak\<close> of the head then finds \<open>isSpeaking\<close> set and pushes
  the head to the back of the queue, behind the requests that came after it.  Here A and
  B are queued in this order while the question is spoken, and B is spoken before A.
\<close>

theorem queue_order_broken:
  "spoken (run constructor
     [CallSpeak ''Question 1'' [], CallSpeak ''Option A'' [], CallSpeak ''Option B'' [],
      TtsDone 1, CallSpeak ''Please say a command'' [], Due (PostSpeech 0),
      TtsDone 5, Due (PostSpeech 4), TtsDone 6, Due (PostSpeech 4)])
   = [''Question 1'', ''Please say a command'', ''Option B'', ''Option A'']"
  by code_simp

text \<open>
  Claim C6, as stated: the promise returned by \<^verbatim>\<open>speak(text)\<close> while speaking resolves
  only after \<open>text\<close> has been spoken.

  The queuing branch of \<^verbatim>\<open>speak\<close> is \<^verbatim>\<open>push\<close> and \<^verbatim>\<open>return\<close>: the promise of the
  \<^verbatim>\<open>async\<close> method resolves at once.  After the second call below, its promise (number
  2) has resolved and its text has not been handed to the engine.
\<close>

theorem queued_speak_resolves_early:
  "Resolved 2 \<in> set (effects (run constructor
       [CallSpeak ''Question 1'' [], CallSpeak ''Option A'' []]))
   \<and> ''Option A'' \<notin> set (spoken (run constructor
       [CallSpeak ''Question 1'' [], CallSpeak ''Option A'' []]))"
  by code_simp

text \<open>
  Claim C6, amended: \<^verbatim>\<open>speak(text)\<close> with a non-blank text, called while \<open>isSpeaking\<close>,
  appends the request to the end of the speech queue and returns a promise that is
  resolved at once; nothing is handed to the engine by the call and no other field changes.
\<close>

theorem speak_while_speaking:
  assumes "isSpeaking s" and "jsTrim msg \<noteq> []"
  shows "speak msg opts s = s\<lparr>nextId := Suc (nextId s),
           speechQueue := speechQueue s @ [(msg, opts)],
           effects := effects s @ [Resolved (nextId s)]\<rparr>
       \<and> spoken (speak msg opts s) = spoken s"
proof -
  have "msg \<noteq> []" using assms(2) by (auto simp: jsTrim_def)
  then have "speak msg opts s = s\<lparr>nextId := Suc (nextId s),
           speechQueue := speechQueue s @ [(msg, opts)],
           effects := effects s @ [Resolved (nextId s)]\<rparr>"
    using assms by (simp add: speak_def speakAs_def emit_def)
  then show ?thesis
    by (simp add: spoken_def)
qed

theorem speak_while_speaking_witness:
  "speechQueue (speak ''Option A'' [] (run constructor [CallSpeak ''Question 1'' []]))
     = [(''Option A'', [])]
   \<and> effects (speak ''Option A'' [] (run constructor [CallSpeak ''Question 1'' []]))
     = [TtsSpeak 1 ''Question 1'', Resolved 2]"
proof -
  let ?s = "run constructor [CallSpeak ''Question 1'' []]"
  have h: "isSpeaking ?s" "jsTrim ''Option A'' \<noteq> []" "speechQueue ?s = []"
    "effects ?s = [TtsSpeak 1 ''Question 1'']" "nextId ?s = 2"
    by code_simp+
  show ?thesis
    using speak_while_speaking [OF h(1,2), of "[]"] h(3-5) by simp
qed

subsection \<open>Engine errors\<close>

lemma listenBody_failed:
  assumes "startThrows s"
  shows "\<not> isListening (listenBody opts p s)"
    and "effects (listenBody opts p s) = effects s
           @ (if currentRecognition s then [SttStop] else [])
           @ (if onRecognitionErrorCallback s
              then [RecognitionError (ErrorOfType ''unknown''), RecognitionError CaughtError]
              else [])
           @ [Resolved p]"
  using assms
  by (auto simp: listenBody_def stopListening_def clearSilenceTimeout_def clearTimeout_def
      emit_def suspend_def Let_def split: option.splits)

text \<open>
  Claim C8, as stated: on an engine error the turn is released, the failure is reported
  through a callback or an error value, and no public method throws to its caller.

  \<^verbatim>\<open>speak\<close> is an \<^verbatim>\<open>async\<close> method whose \<^verbatim>\<open>onError\<close> handler calls \<^verbatim>\<open>reject(error)\<close>:
  the promise it returned (number 0 below) is rejected, which a caller that awaits it
  receives as a thrown exception.
\<close>

theorem speak_rejects_on_engine_error:
  "Rejected 0 \<in> set (effects (run constructor [CallSpeak ''Question 1'' [], TtsError 1]))"
  by code_simp

text \<open>
  Claim C8, amended.
  \<^item> When the TTS engine reports an error for an utterance, \<open>isSpeaking\<close> is cleared, the
    speech-end callback is called when one is registered, and then the promise of the
    \<^verbatim>\<open>speak\<close> call is rejected: the error reaches the caller as a rejection.
  \<^item> When the recogniser reports an error, \<open>isListening\<close> is cleared and the error is passed
    to the error callback when one is registered (type \<^verbatim>\<open>unknown\<close> when the engine names
    none).
  \<^item> When the recogniser's \<^verbatim>\<open>start\<close> throws, \<^verbatim>\<open>startListening\<close> leaves \<open>isListening\<close>
    false, reports to the error callback (once from each of its two handlers), and its
    own promise resolves: it does not throw.
\<close>

theorem engine_errors_release_the_turn:
  "(utterancePromise u (pending s) = Some p \<longrightarrow>
      \<not> isSpeaking (step s (TtsError u))
      \<and> effects (step s (TtsError u))
          = effects s @ (if onSpeechEndCallback s then [SpeechEnd] else []) @ [Rejected p])
   \<and> (currentRecognitionSubscriptions s \<longrightarrow>
      \<not> isListening (step s (SttError code))
      \<and> effects (step s (SttError code))
          = effects s @ (if onRecognitionErrorCallback s
                         then [RecognitionError (ErrorOfType (if code = [] then ''unknown'' else code))]
                         else []))
   \<and> (startThrows s \<and> \<not> isListening s \<and> \<not> isSpeaking s \<longrightarrow>
      \<not> isListening (startListening opts s)
      \<and> effects (startListening opts s)
          = effects s @ (if currentRecognition s then [SttStop] else [])
            @ (if onRecognitionErrorCallback s
               then [RecognitionError (ErrorOfType ''unknown''), RecognitionError CaughtError]
               else [])
            @ [Resolved (nextId s)])"
proof (intro conjI impI)
  assume up: "utterancePromise u (pending s) = Some p"
  then show "\<not> isSpeaking (step s (TtsError u))"
    by (simp add: engineCallback_def onError_def emit_def notifySpeechEnd_def take_task_def)
  from up show "effects (step s (TtsError u))
      = effects s @ (if onSpeechEndCallback s then [SpeechEnd] else []) @ [Rejected p]"
    by (simp add: engineCallback_def onError_def emit_def notifySpeechEnd_def take_task_def)
next
  assume sub: "currentRecognitionSubscriptions s"
  then show "\<not> isListening (step s (SttError code))"
    by (simp add: errorListener_def clearSilenceTimeout_def clearTimeout_def emit_def Let_def
        split: option.splits)
  from sub show "effects (step s (SttError code))
      = effects s @ (if onRecognitionErrorCallback s
                     then [RecognitionError (ErrorOfType (if code = [] then ''unknown'' else code))]
                     else [])"
    by (simp add: errorListener_def clearSilenceTimeout_def clearTimeout_def emit_def Let_def
        split: option.splits)
next
  assume a: "startThrows s \<and> \<not> isListening s \<and> \<not> isSpeaking s"
  let ?s0 = "s\<lparr>nextId := Suc (nextId s)\<rparr>"
  have eq: "startListening opts s = listenBody opts (nextId s) ?s0"
    using a by (simp add: startListening_def Let_def)
  have thr: "startThrows ?s0" using a by simp
  show "\<not> isListening (startListening opts s)"
    using listenBody_failed(1) [OF thr] by (simp add: eq)
  show "effects (startListening opts s)
      = effects s @ (if currentRecognition s then [SttStop] else [])
        @ (if onRecognitionErrorCallback s
           then [RecognitionError (ErrorOfType ''unknown''), RecognitionError CaughtError]
           else [])
        @ [Resolved (nextId s)]"
    using listenBody_failed(2) [OF thr, of opts "nextId s"] by (simp add: eq)
qed

theorem engine_errors_release_the_turn_witness:
  "\<not> isSpeaking (step (run constructor [CallSpeak ''Question 1'' []]) (TtsError 1))
   \<and> effects (step (run constructor [CallSpeak ''Question 1'' []]) (TtsError 1))
       = [TtsSpeak 1 ''Question 1'', Rejected 0]
   \<and> \<not> isListening (step (run constructor [SetOnRecognitionError True, CallStartListening []])
        (SttError ''network''))
   \<and> effects (step (run constructor [SetOnRecognitionError True, CallStartListening []])
        (SttError ''network''))
       = [SttStart, Resolved 0, RecognitionError (ErrorOfType ''network'')]
   \<and> \<not> isListening (startListening []
        (run constructor [SetOnRecognitionError True, EngineStartThrows True]))
   \<and> effects (startListening []
        (run constructor [SetOnRecognitionError True, EngineStartThrows True]))
       = [RecognitionError (ErrorOfType ''unknown''), RecognitionError CaughtError, Resolved 0]"
proof -
  let ?a = "run constructor [CallSpeak ''Question 1'' []]"
  let ?b = "run constructor [SetOnRecognitionError True, CallStartListening []]"
  let ?c = "run constructor [SetOnRecognitionError True, EngineStartThrows True]"
  have a: "utterancePromise 1 (pending ?a) = Some 0" "\<not> onSpeechEndCallback ?a"
    "effects ?a = [TtsSpeak 1 ''Question 1'']"
    by code_simp+
  have b: "currentRecognitionSubscriptions ?b" "onRecognitionErrorCallback ?b"
    "effects ?b = [SttStart, Resolved 0]"
    by code_simp+
  have c: "startThrows ?c \<and> \<not> isListening ?c \<and> \<not> isSpeaking ?c" "onRecognitionErrorCallback ?c"
    "\<not> currentRecognition ?c" "effects ?c = []" "nextId ?c = 0"
    by code_simp+
  show ?thesis
    using engine_errors_release_the_turn [of 1 ?a 0 "''network''" "[]"] a(1)
    using engine_errors_release_the_turn [of 1 ?b 0 "''network''" "[]"] b(1)
    using engine_errors_release_the_turn [of 1 ?c 0 "''network''" "[]"] c(1)
    by (simp add: a(2,3) b(2,3) c(2-5))
qed

subsection \<open>Stopping speech\<close>

text \<open>
  Every text the engine is ever given was given to it before, is held in the queue or by a
  waiting \<^verbatim>\<open>speak\<close>, or is requested by a later call.
\<close>

lemma held_alt:
  "held s = {msg. \<exists>u. TtsSpeak u msg \<in> set (effects s)}
          \<union> fst ` set (speechQueue s)
          \<union> {msg. \<exists>opts p. SpeakDelay msg opts p \<in> set (pending s)}"
proof -
  have 1: "set (spoken s) = {msg. \<exists>u. TtsSpeak u msg \<in> set (effects s)}"
    unfolding spoken_def
    by (induction "effects s" arbitrary: s) (auto split: effect.splits)
  have "set [msg. SpeakDelay msg opts p \<leftarrow> ts]
      = {msg. \<exists>opts p. SpeakDelay msg opts p \<in> set ts}" for ts
    by (induction ts) (auto split: task.splits)
  then show ?thesis by (auto simp: held_def 1 waitingTexts_def)
qed

lemma held_step: "held (step s e) \<subseteq> held s \<union> set (requested [e])"
proof (cases e)
  case (Due t)
  then show ?thesis
    by (cases t) (auto simp: held_alt requested_def service_defs Let_def
        dest!: set_remove1_subset [THEN subsetD] split: list.splits option.splits prod.splits if_splits)
next
  case (TtsDone u)
  then show ?thesis
    by (auto simp: held_alt requested_def service_defs Let_def
        dest!: set_remove1_subset [THEN subsetD] split: option.splits)
next
  case (TtsStopped u)
  then show ?thesis
    by (auto simp: held_alt requested_def service_defs Let_def
        dest!: set_remove1_subset [THEN subsetD] split: option.splits)
next
  case (TtsError u)
  then show ?thesis
    by (auto simp: held_alt requested_def service_defs Let_def
        dest!: set_remove1_subset [THEN subsetD] split: option.splits)
next
  case (CallStartListening opts)
  then show ?thesis
    by (auto simp: held_alt requested_def service_defs Let_def split: option.splits if_splits)
next
  case (CallSpeak msg opts)
  then show ?thesis
    by (auto simp: held_alt requested_def service_defs Let_def split: option.splits if_splits)
qed (auto simp: held_alt requested_def service_defs Let_def split: option.splits if_splits)

lemma requested_Cons: "set (requested (e # evs)) = set (requested [e]) \<union> set (requested evs)"
  by (cases e) (simp_all add: requested_def)

lemma held_run: "held (run s evs) \<subseteq> held s \<union> set (requested evs)"
proof (induction evs arbitrary: s)
  case Nil
  then show ?case by (simp add: run_def)
next
  case (Cons e evs)
  have "held (run s (e # evs)) = held (run (step s e) evs)" by (simp add: run_def)
  also have "\<dots> \<subseteq> held (step s e) \<union> set (requested evs)" by (rule Cons.IH)
  also have "\<dots> \<subseteq> held s \<union> set (requested [e]) \<union> set (requested evs)"
    using held_step [of s e] by blast
  finally show ?case using requested_Cons [of e evs] by blast
qed

text \<open>
  Claim C10, as stated: \<^verbatim>\<open>stopSpeaking\<close> while speaking drops every queued request
  unspoken, and the completion signal of a dropped request never resolves.

  The signal of a queued request resolved when it was queued.  Below, the second call is
  queued, its promise (number 2) is resolved, and \<^verbatim>\<open>stopSpeaking\<close> then empties the queue.
\<close>

theorem dropped_request_was_resolved:
  "Resolved 2 \<in> set (effects (run constructor
       [CallSpeak ''Question 1'' [], CallSpeak ''Option A'' [], CallStopSpeaking]))
   \<and> speechQueue (run constructor
       [CallSpeak ''Question 1'' [], CallSpeak ''Option A'' [], CallStopSpeaking]) = []"
  by code_simp

text \<open>
  Claim C10, amended: \<^verbatim>\<open>stopSpeaking\<close> called while \<open>isSpeaking\<close> stops the engine, clears
  \<open>isSpeaking\<close> and empties the speech queue; \<^verbatim>\<open>startListening\<close> called while speaking
  and not listening does exactly this before its 800 ms wait.  A text that was only in the
  queue is dropped unspoken: in no continuation of the run is it handed to the engine,
  unless a later \<^verbatim>\<open>speak\<close> asks for it again.  The promise of a request queued while
  speaking is already resolved when the request is dropped.
\<close>

theorem stopSpeaking_discards_queue:
  assumes "isSpeaking s"
  shows "speechQueue (stopSpeaking s) = [] \<and> \<not> isSpeaking (stopSpeaking s)
       \<and> effects (stopSpeaking s) = effects s @ [TtsStop]
       \<and> (\<not> isListening s \<longrightarrow>
            startListening opts s
              = suspend (ListenDelay opts (nextId s))
                  (stopSpeaking (s\<lparr>nextId := Suc (nextId s)\<rparr>)))
       \<and> (msg \<notin> set (spoken s) \<and> msg \<notin> set [m. SpeakDelay m opts' p \<leftarrow> pending s]
            \<and> msg \<notin> set (requested evs) \<longrightarrow>
            msg \<notin> set (spoken (run (stopSpeaking s) evs)))
       \<and> (jsTrim msg \<noteq> [] \<longrightarrow>
            Resolved (nextId s) \<in> set (effects (stopSpeaking (speak msg opts s)))
            \<and> speechQueue (stopSpeaking (speak msg opts s)) = [])"
proof (intro conjI impI)
  show "speechQueue (stopSpeaking s) = []" "\<not> isSpeaking (stopSpeaking s)"
    "effects (stopSpeaking s) = effects s @ [TtsStop]"
    using assms by (simp_all add: stopSpeaking_def emit_def)
next
  assume "\<not> isListening s"
  then show "startListening opts s
      = suspend (ListenDelay opts (nextId s)) (stopSpeaking (s\<lparr>nextId := Suc (nextId s)\<rparr>))"
    using assms by (simp add: startListening_def Let_def)
next
  assume a: "msg \<notin> set (spoken s) \<and> msg \<notin> set [m. SpeakDelay m opts' p \<leftarrow> pending s]
            \<and> msg \<notin> set (requested evs)"
  have "held (stopSpeaking s) = set (spoken s) \<union> set [m. SpeakDelay m opts' p \<leftarrow> pending s]"
    using assms by (simp add: held_def waitingTexts_def stopSpeaking_def emit_def spoken_def)
  then have "msg \<notin> held (stopSpeaking s) \<union> set (requested evs)"
    using a by simp
  then have "msg \<notin> held (run (stopSpeaking s) evs)"
    using held_run [of "stopSpeaking s" evs] by blast
  then show "msg \<notin> set (spoken (run (stopSpeaking s) evs))"
    by (simp add: held_def)
next
  assume b: "jsTrim msg \<noteq> []"
  then have "msg \<noteq> []" by (auto simp: jsTrim_def)
  with b show "Resolved (nextId s) \<in> set (effects (stopSpeaking (speak msg opts s)))"
    "speechQueue (stopSpeaking (speak msg opts s)) = []"
    using assms by (simp_all add: speak_def speakAs_def stopSpeaking_def emit_def)
qed

theorem stopSpeaking_discards_queue_witness:
  "speechQueue (stopSpeaking (run constructor
       [CallSpeak ''Question 1'' [], CallSpeak ''Option A'' []])) = []
   \<and> ''Option A'' \<notin> set (spoken (run (stopSpeaking (run constructor
       [CallSpeak ''Question 1'' [], CallSpeak ''Option A'' []]))
       [TtsStopped 1, CallSpeak ''Question 2'' [], TtsDone 4, Due (PostSpeech 3)]))"
proof -
  let ?s = "run constructor [CallSpeak ''Question 1'' [], CallSpeak ''Option A'' []]"
  let ?evs = "[TtsStopped 1, CallSpeak ''Question 2'' [], TtsDone 4, Due (PostSpeech 3)]"
  have h: "isSpeaking ?s" "\<not> isListening ?s" "jsTrim ''Option A'' \<noteq> []"
    "''Option A'' \<notin> set (spoken ?s) \<and> ''Option A'' \<notin> set [m. SpeakDelay m opts' p \<leftarrow> pending ?s]
       \<and> ''Option A'' \<notin> set (requested ?evs)"
    by code_simp+
  show ?thesis
    using stopSpeaking_discards_queue [OF h(1), of "[]" "''Option A''" ?evs] h(2-4) by simp
qed


section \<open>Properties of the option-letter search\<close>

subsection \<open>Characters\<close>

lemma upperChar_code:
  "of_char (upperChar c) = (let n = (of_char c :: nat) in
     if (97 \<le> n \<and> n \<le> 122) \<or> (224 \<le> n \<and> n \<le> 254 \<and> n \<noteq> 247) then n - 32 else n)"
  by (auto simp: upperChar_def Let_def)

lemma char_eq_code: "(c = d) = ((of_char c :: nat) = of_char d)"
  by simp

lemma isSpace_not_word: "isSpace c \<Longrightarrow> \<not> isWordChar c"
  by (auto simp: isSpace_def isWordChar_def Let_def)

lemma isOptionLetter_code:
  "isOptionLetter c = ((of_char c :: nat) \<in> {65, 66, 67, 68, 97, 98, 99, 100})"
  unfolding isOptionLetter_def
  by (simp add: char_eq_code [of "upperChar c"] upperChar_code Let_def) arith

lemma isOptionLetter_word: "isOptionLetter c \<Longrightarrow> isWordChar c"
  by (auto simp: isOptionLetter_code isWordChar_def Let_def)

lemma isSpace_not_letter: "isSpace c \<Longrightarrow> \<not> isOptionLetter c"
  using isOptionLetter_word isSpace_not_word by blast

lemma inClass_abcd: "inClass True ''abcd'' c = isOptionLetter c"
  unfolding inClass_def canonicalize_def isOptionLetter_def
  by (simp add: char_eq_code [of "upperChar c"] upperChar_code Let_def)

lemma inClass_whitespace: "inClass True whitespace c = isSpace c"
  unfolding inClass_def canonicalize_def isSpace_def whitespace_def
  by (simp add: char_eq_code [of "upperChar c"] upperChar_code Let_def) arith

subsection \<open>The matcher on the three patterns\<close>

lemma classRun_in:
  "k < classRun ic cs s p \<Longrightarrow> p + k < length s \<and> inClass ic cs (s ! (p + k))"
proof -
  assume k: "k < classRun ic cs s p"
  let ?t = "takeWhile (inClass ic cs) (drop p s)"
  have len: "k < length ?t" using k by (simp add: classRun_def)
  have "length ?t \<le> length (drop p s)" by (rule length_takeWhile_le)
  then have 1: "p + k < length s" using len by simp
  have "?t ! k = drop p s ! k" using len by (rule takeWhile_nth)
  moreover have "inClass ic cs (?t ! k)" using len by (meson nth_mem set_takeWhileD)
  ultimately show ?thesis using 1 by simp
qed

lemma classRun_end:
  "p + classRun ic cs s p < length s \<Longrightarrow> \<not> inClass ic cs (s ! (p + classRun ic cs s p))"
proof -
  assume a: "p + classRun ic cs s p < length s"
  then have "classRun ic cs s p < length (drop p s)" by simp
  then have "\<not> inClass ic cs (drop p s ! classRun ic cs s p)"
    unfolding classRun_def by (rule nth_length_takeWhile)
  then show ?thesis using a by simp
qed

lemma classRun_all:
  "classRun ic cs s p = length s - p \<longleftrightarrow> (\<forall>i. p \<le> i \<and> i < length s \<longrightarrow> inClass ic cs (s ! i))"
proof
  assume a: "classRun ic cs s p = length s - p"
  show "\<forall>i. p \<le> i \<and> i < length s \<longrightarrow> inClass ic cs (s ! i)"
  proof (intro allI impI)
    fix i assume i: "p \<le> i \<and> i < length s"
    then have "i - p < classRun ic cs s p" using a by auto
    from classRun_in [OF this] i show "inClass ic cs (s ! i)" by simp
  qed
next
  assume a: "\<forall>i. p \<le> i \<and> i < length s \<longrightarrow> inClass ic cs (s ! i)"
  have "\<forall>x \<in> set (drop p s). inClass ic cs x"
    using a by (auto simp: in_set_conv_nth)
  then have "takeWhile (inClass ic cs) (drop p s) = drop p s"
    by (simp add: takeWhile_eq_all_conv)
  then have "length (takeWhile (inClass ic cs) (drop p s)) = length (drop p s)"
    by (rule arg_cong)
  then show "classRun ic cs s p = length s - p" by (simp add: classRun_def)
qed

lemma set_matches_Seq:
  "set (matches ic s (Seq a b) st) = (\<Union>x \<in> set (matches ic s a st). set (matches ic s b x))"
  by simp

lemma option_literal:
  assumes "map upperChar (take 6 (drop q s)) = ''OPTION''"
  shows "q + 6 \<le> length s" and "\<And>i. q \<le> i \<Longrightarrow> i < q + 6 \<Longrightarrow> \<not> isOptionLetter (s ! i)"
proof -
  have "length (map upperChar (take 6 (drop q s))) = 6" using assms by simp
  then show len: "q + 6 \<le> length s" by simp
  fix i assume i: "q \<le> i" "i < q + 6"
  have "map upperChar (take 6 (drop q s)) ! (i - q) = upperChar (s ! i)"
    using i len by simp
  then have "upperChar (s ! i) = ''OPTION'' ! (i - q)" using assms by simp
  moreover have "i - q < 6" using i by simp
  then have "''OPTION'' ! (i - q) \<in> set ''OPTION''" by (intro nth_mem) simp
  ultimately show "\<not> isOptionLetter (s ! i)"
    by (auto simp: isOptionLetter_def)
qed

lemma canonicalize_True: "canonicalize True = upperChar"
  by (simp add: canonicalize_def fun_eq_iff)

lemma matches_Lit_option:
  "matches True s (Lit ''option'') st
     = (if map upperChar (take 6 (drop (fst st) s)) = ''OPTION''
        then [(fst st + 6, snd st)] else [])"
proof -
  have 1: "map upperChar ''option'' = ''OPTION''" by code_simp
  have 2: "length ''option'' = 6" by simp
  show ?thesis
    unfolding matches.simps canonicalize_True 1 2 ..
qed

lemma in_matches_Plus:
  "(e, c') \<in> set (matches ic s (Plus cs) (p, c))
     \<longleftrightarrow> c' = c \<and> p < e \<and> e \<le> p + classRun ic cs s p"
proof -
  have "(e, c') \<in> set (matches ic s (Plus cs) (p, c))
      \<longleftrightarrow> (\<exists>k. 1 \<le> k \<and> k < Suc (classRun ic cs s p) \<and> e = p + k \<and> c' = c)"
    by (auto simp: image_iff)
  also have "\<dots> \<longleftrightarrow> c' = c \<and> p < e \<and> e \<le> p + classRun ic cs s p"
  proof
    assume "\<exists>k. 1 \<le> k \<and> k < Suc (classRun ic cs s p) \<and> e = p + k \<and> c' = c"
    then show "c' = c \<and> p < e \<and> e \<le> p + classRun ic cs s p" by auto
  next
    assume a: "c' = c \<and> p < e \<and> e \<le> p + classRun ic cs s p"
    then have "1 \<le> e - p \<and> e - p < Suc (classRun ic cs s p) \<and> e = p + (e - p) \<and> c' = c"
      by auto
    then show "\<exists>k. 1 \<le> k \<and> k < Suc (classRun ic cs s p) \<and> e = p + k \<and> c' = c" ..
  qed
  finally show ?thesis .
qed

lemma in_matches_Star:
  "(e, c') \<in> set (matches ic s (Star cs) (p, c))
     \<longleftrightarrow> c' = c \<and> p \<le> e \<and> e \<le> p + classRun ic cs s p"
proof -
  have "(e, c') \<in> set (matches ic s (Star cs) (p, c))
      \<longleftrightarrow> (\<exists>k. k < Suc (classRun ic cs s p) \<and> e = p + k \<and> c' = c)"
    by (auto simp: image_iff)
  also have "\<dots> \<longleftrightarrow> c' = c \<and> p \<le> e \<and> e \<le> p + classRun ic cs s p"
  proof
    assume "\<exists>k. k < Suc (classRun ic cs s p) \<and> e = p + k \<and> c' = c"
    then show "c' = c \<and> p \<le> e \<and> e \<le> p + classRun ic cs s p" by auto
  next
    assume a: "c' = c \<and> p \<le> e \<and> e \<le> p + classRun ic cs s p"
    then have "e - p < Suc (classRun ic cs s p) \<and> e = p + (e - p) \<and> c' = c"
      by auto
    then show "\<exists>k. k < Suc (classRun ic cs s p) \<and> e = p + k \<and> c' = c" ..
  qed
  finally show ?thesis .
qed


lemma run_is_space:
  assumes "p \<le> i" and "i < e" and "e \<le> p + classRun True whitespace s p"
  shows "i < length s \<and> isSpace (s ! i)"
proof -
  have "i - p < classRun True whitespace s p" using assms by simp
  from classRun_in [OF this] assms(1) show ?thesis
    by (simp add: inClass_whitespace)
qed

lemma set_matches_Opt: "set (matches ic s (Opt a) st) = insert st (set (matches ic s a st))"
  by simp

lemma optPart_sound:
  assumes "(e, c') \<in> set (matches True s optPart (q, c))"
  shows "c' = c \<and> q \<le> e
       \<and> (\<forall>i. q \<le> i \<and> i < e \<longrightarrow> i < length s \<and> \<not> isOptionLetter (s ! i))
       \<and> (q < e \<longrightarrow> isSpace (s ! (e - 1)))"
proof (cases "e = q \<and> c' = c")
  case True
  then show ?thesis by auto
next
  case False
  then have "(e, c') \<in> set (matches True s (Seq (Lit ''option'') (Plus whitespace)) (q, c))"
    using assms unfolding optPart_def set_matches_Opt by blast
  then obtain x where x: "x \<in> set (matches True s (Lit ''option'') (q, c))"
      and e: "(e, c') \<in> set (matches True s (Plus whitespace) x)"
    unfolding set_matches_Seq by blast
  from x have lit: "map upperChar (take 6 (drop q s)) = ''OPTION''" and x': "x = (q + 6, c)"
    unfolding matches_Lit_option by (auto split: if_splits)
  from e have k: "c' = c" "q + 6 < e" "e \<le> q + 6 + classRun True whitespace s (q + 6)"
    unfolding x' in_matches_Plus by auto
  have "\<And>i. q \<le> i \<Longrightarrow> i < e \<Longrightarrow> i < length s \<and> \<not> isOptionLetter (s ! i)"
  proof -
    fix i assume i: "q \<le> i" "i < e"
    show "i < length s \<and> \<not> isOptionLetter (s ! i)"
    proof (cases "i < q + 6")
      case True
      then show ?thesis using option_literal [OF lit] i by simp
    next
      case False
      then have "q + 6 \<le> i" by simp
      from run_is_space [OF this i(2) k(3)] show ?thesis
        using isSpace_not_letter by simp
    qed
  qed
  moreover have "isSpace (s ! (e - 1))"
    using run_is_space [of "q + 6" "e - 1" e s] k by simp
  ultimately show ?thesis using k by simp
qed

lemma optPart_skip: "(q, c) \<in> set (matches True s optPart (q, c))"
  unfolding optPart_def set_matches_Opt by blast

lemma letter_group:
  "matches True s (Seq (Group (Class ''abcd'')) T) (p, c)
     = (if p < length s \<and> isOptionLetter (s ! p)
        then matches True s T (Suc p, Some [s ! p]) else [])"
proof (cases "p < length s \<and> isOptionLetter (s ! p)")
  case True
  then have "take (Suc p - p) (drop p s) = [s ! p]"
    by (simp add: take_Suc_conv_app_nth)
  then show ?thesis using True by (simp add: inClass_abcd)
next
  case False
  then show ?thesis by (auto simp: inClass_abcd)
qed

lemma matches_WordBoundary:
  "matches ic s WordBoundary st = (if boundaryAt s (fst st) then [st] else [])"
  by simp

lemma matches_EndOfInput:
  "matches ic s EndOfInput st = (if fst st = length s then [st] else [])"
  by simp

declare matches.simps [simp del]

lemma letterPattern_shape:
  "letterPattern = Seq WordBoundary (Seq optPart (Seq (Group (Class ''abcd'')) WordBoundary))"
  by (simp add: letterPattern_def optPart_def)

lemma boundary_before_letter:
  assumes "boundaryAt s j" and "j < length s" and "isOptionLetter (s ! j)"
  shows "\<not> (0 < j \<and> isWordChar (s ! (j - 1)))"
  using assms isOptionLetter_word [of "s ! j"] by (auto simp: boundaryAt_def wordAt_def)

lemma boundary_after_letter:
  assumes "boundaryAt s (Suc j)" and "j < length s" and "isOptionLetter (s ! j)"
  shows "\<not> (Suc j < length s \<and> isWordChar (s ! Suc j))"
  using assms isOptionLetter_word [of "s ! j"] by (auto simp: boundaryAt_def wordAt_def)

text \<open>
  Every match of the letter pattern that starts at \<open>q\<close> captures a letter standing alone at
  some \<open>j\<close> from \<open>q\<close> on, with no letter standing alone between \<open>q\<close> and \<open>j\<close>; and
  wherever a letter stands alone, the pattern matches.
\<close>

lemma letterPattern_sound:
  assumes "(e, cap) \<in> set (matches True s letterPattern (q, None))"
  shows "\<exists>j. q \<le> j \<and> e = Suc j \<and> cap = Some [s ! j] \<and> standsAlone s j
           \<and> (\<forall>i. q \<le> i \<and> i < j \<longrightarrow> \<not> standsAlone s i)"
proof -
  from assms obtain x where x: "x \<in> set (matches True s WordBoundary (q, None))"
      and 1: "(e, cap) \<in> set (matches True s
                 (Seq optPart (Seq (Group (Class ''abcd'')) WordBoundary)) x)"
    unfolding letterPattern_shape set_matches_Seq [of _ _ WordBoundary] by blast
  from x have bq: "boundaryAt s q" and x': "x = (q, None)"
    unfolding matches_WordBoundary by (auto split: if_splits)
  from 1 obtain y where y: "y \<in> set (matches True s optPart (q, None))"
      and 2: "(e, cap) \<in> set (matches True s (Seq (Group (Class ''abcd'')) WordBoundary) y)"
    unfolding x' set_matches_Seq [of _ _ optPart] by blast
  obtain j c where yj: "y = (j, c)" by (cases y)
  from optPart_sound [OF y [unfolded yj]]
  have c: "c = None" and qj: "q \<le> j"
    and gap: "\<forall>i. q \<le> i \<and> i < j \<longrightarrow> i < length s \<and> \<not> isOptionLetter (s ! i)"
    and sp: "q < j \<longrightarrow> isSpace (s ! (j - 1))"
    by auto
  from 2 have lt: "j < length s" and letter: "isOptionLetter (s ! j)"
    and 3: "(e, cap) \<in> set (matches True s WordBoundary (Suc j, Some [s ! j]))"
    unfolding yj letter_group by (auto split: if_splits)
  from 3 have ba: "boundaryAt s (Suc j)" and e: "e = Suc j" and cap: "cap = Some [s ! j]"
    unfolding matches_WordBoundary by (auto split: if_splits)
  have before: "\<not> (0 < j \<and> isWordChar (s ! (j - 1)))"
  proof (cases "q < j")
    case True
    then show ?thesis using sp isSpace_not_word by blast
  next
    case False
    then have "j = q" using qj by simp
    then show ?thesis using boundary_before_letter [OF _ lt letter] bq by simp
  qed
  have "standsAlone s j"
    using lt letter before boundary_after_letter [OF ba lt letter]
    by (simp add: standsAlone_def)
  moreover have "\<forall>i. q \<le> i \<and> i < j \<longrightarrow> \<not> standsAlone s i"
    using gap by (auto simp: standsAlone_def)
  ultimately show ?thesis using qj e cap by blast
qed

lemma letterPattern_complete:
  assumes "standsAlone s j"
  shows "matches True s letterPattern (j, None) \<noteq> []"
proof -
  have lt: "j < length s" and letter: "isOptionLetter (s ! j)"
    using assms by (simp_all add: standsAlone_def)
  have w: "wordAt s j" using lt letter isOptionLetter_word by (simp add: wordAt_def)
  have bq: "boundaryAt s j"
    using assms w by (auto simp: standsAlone_def boundaryAt_def wordAt_def)
  have ba: "boundaryAt s (Suc j)"
    using assms w by (auto simp: standsAlone_def boundaryAt_def wordAt_def)
  have "(Suc j, Some [s ! j])
      \<in> set (matches True s (Seq (Group (Class ''abcd'')) WordBoundary) (j, None))"
    unfolding letter_group matches_WordBoundary using lt letter ba by simp
  then have "(Suc j, Some [s ! j])
      \<in> set (matches True s (Seq optPart (Seq (Group (Class ''abcd'')) WordBoundary)) (j, None))"
    unfolding set_matches_Seq [of _ _ optPart] using optPart_skip [of j None s] by blast
  moreover have "(j, None) \<in> set (matches True s WordBoundary (j, None))"
    unfolding matches_WordBoundary using bq by simp
  ultimately have "(Suc j, Some [s ! j]) \<in> set (matches True s letterPattern (j, None))"
    unfolding letterPattern_shape set_matches_Seq [of _ _ WordBoundary] by blast
  then show ?thesis by auto
qed

subsection \<open>Searching\<close>

lemma dropWhile_upt: "a \<le> b \<Longrightarrow> dropWhile (\<lambda>q. q < b) [a..<c] = [b..<c]"
proof (cases "b < c")
  case True
  assume ab: "a \<le> b"
  have split: "[a..<c] = [a..<b] @ [b..<c]"
    using ab True by (metis le_Suc_ex less_imp_le_nat upt_add_eq_append)
  have "dropWhile (\<lambda>q. q < b) [a..<c] = dropWhile (\<lambda>q. q < b) [b..<c]"
    unfolding split by (rule dropWhile_append2) simp
  also have "\<dots> = [b..<c]" using True by (simp add: upt_conv_Cons)
  finally show ?thesis .
next
  case False
  then have "\<forall>x \<in> set [a..<c]. x < b" by auto
  then have "dropWhile (\<lambda>q. q < b) [a..<c] = []" by (simp add: dropWhile_eq_Nil_conv)
  then show ?thesis using False by simp
qed

lemma search_searchAll:
  "search ic r s qs = (case searchAll ic r s qs of [] \<Rightarrow> None | m # _ \<Rightarrow> Some m)"
  by (induction qs) (auto split: list.splits)

lemma letterOf_capture: "letterOf (q, e, Some [s ! j]) = Some (letterAt s j)"
  by (simp add: letterOf_def letterAt_def toUpperCase_def)

text \<open>
  Hence the matches found from position \<open>a\<close> on capture the letters standing alone from \<open>a\<close>
  on, each once and in order.
\<close>

lemma searchAll_letters:
  "map letterOf (searchAll True letterPattern s [a..<Suc (length s)])
     = map (\<lambda>j. Some (letterAt s j)) (filter (standsAlone s) [a..<length s])"
proof (induction "Suc (length s) - a" arbitrary: a rule: less_induct)
  case less
  show ?case
  proof (cases "a < Suc (length s)")
    case False
    then show ?thesis by simp
  next
    case True
    then have cands: "[a..<Suc (length s)] = a # [Suc a..<Suc (length s)]"
      by (simp add: upt_conv_Cons)
    show ?thesis
    proof (cases "matches True s letterPattern (a, None)")
      case Nil
      then have "\<not> standsAlone s a" using letterPattern_complete by blast
      then have f: "filter (standsAlone s) [a..<length s] = filter (standsAlone s) [Suc a..<length s]"
        by (cases "a < length s") (simp_all add: upt_conv_Cons)
      have "Suc (length s) - Suc a < Suc (length s) - a" using True by simp
      from less [OF this] show ?thesis
        unfolding cands f by (simp add: Nil del: upt_Suc)
    next
      case (Cons x xs)
      obtain e cap where x: "x = (e, cap)" by (cases x)
      have "(e, cap) \<in> set (matches True s letterPattern (a, None))"
        by (simp add: Cons x)
      from letterPattern_sound [OF this] obtain j where j: "a \<le> j" "e = Suc j"
          "cap = Some [s ! j]" "standsAlone s j" "\<forall>i. a \<le> i \<and> i < j \<longrightarrow> \<not> standsAlone s i"
        by blast
      have jl: "j < length s" using j(4) by (simp add: standsAlone_def)
      have ne: "Suc j \<noteq> a" using j(1) by simp
      have "dropWhile (\<lambda>q'. q' < Suc j) [Suc a..<Suc (length s)] = [Suc j..<Suc (length s)]"
        using j(1) by (intro dropWhile_upt) simp
      then have step: "searchAll True letterPattern s (a # [Suc a..<Suc (length s)])
          = (a, Suc j, Some [s ! j]) # searchAll True letterPattern s [Suc j..<Suc (length s)]"
        using ne by (simp add: Cons x j(2,3) del: upt_Suc)
      have "[a..<length s] = [a..<j] @ j # [Suc j..<length s]"
        using j(1) jl by (metis le_Suc_ex less_imp_le_nat upt_add_eq_append upt_conv_Cons)
      moreover have "filter (standsAlone s) [a..<j] = []"
        using j(5) by (auto simp: filter_empty_conv)
      ultimately have f: "filter (standsAlone s) [a..<length s]
          = j # filter (standsAlone s) [Suc j..<length s]"
        using j(4) by simp
      have "Suc (length s) - Suc j < Suc (length s) - a" using j(1) jl by simp
      from less [OF this] show ?thesis
        unfolding cands f step
        by (simp add: letterOf_capture del: upt_Suc)
    qed
  qed
qed

lemma first_letter:
  "(case jsMatch True letterPattern s of Some m \<Rightarrow> letterOf m | None \<Rightarrow> None)
     = specFirstLetter s"
proof -
  let ?all = "searchAll True letterPattern s [0..<Suc (length s)]"
  have all: "map letterOf ?all = map (\<lambda>j. Some (letterAt s j)) (filter (standsAlone s) [0..<length s])"
    by (rule searchAll_letters)
  show ?thesis
  proof (cases ?all)
    case Nil
    then have "filter (standsAlone s) [0..<length s] = []" using all by simp
    then show ?thesis
      by (simp add: jsMatch_def search_searchAll Nil specFirstLetter_def del: upt_Suc)
  next
    case (Cons m ms)
    then obtain j js where f: "filter (standsAlone s) [0..<length s] = j # js"
      and m: "letterOf m = Some (letterAt s j)"
      using all by (cases "filter (standsAlone s) [0..<length s]") auto
    then show ?thesis
      by (simp add: jsMatch_def search_searchAll Cons specFirstLetter_def del: upt_Suc)
  qed
qed

lemma last_letter:
  "(case matchAll True letterPattern s of [] \<Rightarrow> None | m # ms \<Rightarrow> letterOf (last (m # ms)))
     = specLastLetter s"
proof -
  let ?all = "searchAll True letterPattern s [0..<Suc (length s)]"
  let ?is = "filter (standsAlone s) [0..<length s]"
  have all: "map letterOf ?all = map (\<lambda>j. Some (letterAt s j)) ?is"
    by (rule searchAll_letters)
  show ?thesis
  proof (cases ?all)
    case Nil
    then have "?is = []" using all by simp
    then show ?thesis by (simp add: matchAll_def Nil specLastLetter_def del: upt_Suc)
  next
    case (Cons m ms)
    then obtain j js where f: "?is = j # js"
      using all by (cases ?is) auto
    have "letterOf (last ?all) = last (map letterOf ?all)"
      using Cons by (simp add: last_map)
    also have "\<dots> = last (map (\<lambda>j. Some (letterAt s j)) ?is)" by (simp only: all)
    also have "\<dots> = Some (letterAt s (last ?is))" using f by (simp add: last_map)
    finally show ?thesis
      using Cons f by (simp add: matchAll_def specLastLetter_def del: upt_Suc)
  qed
qed

subsection \<open>The patterns anchored at the end\<close>

lemma classRun_le: "classRun ic cs s p \<le> length s - p"
  unfolding classRun_def by (metis length_drop length_takeWhile_le)

lemma in_matches_tail:
  "(e, c') \<in> set (matches True s (Seq (Star whitespace) EndOfInput) (p, c))
     \<longleftrightarrow> c' = c \<and> e = length s \<and> p \<le> length s \<and> list_all isSpace (drop p s)"
proof -
  have all: "list_all isSpace (drop p s) \<longleftrightarrow> classRun True whitespace s p = length s - p"
  proof -
    have "list_all isSpace (drop p s) \<longleftrightarrow> (\<forall>k < length s - p. isSpace (s ! (p + k)))"
      by (simp add: list_all_length)
    also have "\<dots> \<longleftrightarrow> (\<forall>i. p \<le> i \<and> i < length s \<longrightarrow> isSpace (s ! i))"
    proof
      assume a: "\<forall>k < length s - p. isSpace (s ! (p + k))"
      show "\<forall>i. p \<le> i \<and> i < length s \<longrightarrow> isSpace (s ! i)"
      proof (intro allI impI)
        fix i assume i: "p \<le> i \<and> i < length s"
        then have "i - p < length s - p" by auto
        with a have "isSpace (s ! (p + (i - p)))" by blast
        then show "isSpace (s ! i)" using i by simp
      qed
    next
      assume a: "\<forall>i. p \<le> i \<and> i < length s \<longrightarrow> isSpace (s ! i)"
      show "\<forall>k < length s - p. isSpace (s ! (p + k))"
        using a by auto
    qed
    finally show ?thesis by (simp add: classRun_all inClass_whitespace)
  qed
  have "(e, c') \<in> set (matches True s (Seq (Star whitespace) EndOfInput) (p, c))
      \<longleftrightarrow> (\<exists>x. x \<in> set (matches True s (Star whitespace) (p, c))
               \<and> (e, c') \<in> set (matches True s EndOfInput x))"
    unfolding set_matches_Seq by blast
  also have "\<dots> \<longleftrightarrow> (\<exists>e'. p \<le> e' \<and> e' \<le> p + classRun True whitespace s p
               \<and> e' = length s \<and> e = e' \<and> c' = c)"
    unfolding matches_EndOfInput by (auto simp: in_matches_Star)
  also have "\<dots> \<longleftrightarrow> c' = c \<and> e = length s \<and> p \<le> length s
               \<and> classRun True whitespace s p = length s - p"
    using classRun_le [of True whitespace s p] by auto
  finally show ?thesis by (simp add: all)
qed

lemma letter_then_tail:
  "(e, cap) \<in> set (matches True s
        (Seq (Group (Class ''abcd'')) (Seq (Star whitespace) EndOfInput)) (j, c))
     \<longleftrightarrow> j < length s \<and> isOptionLetter (s ! j) \<and> e = length s \<and> cap = Some [s ! j]
          \<and> list_all isSpace (drop (Suc j) s)"
  unfolding letter_group by (auto simp: in_matches_tail)

lemma endPattern2_shape:
  "endPattern2 = Seq WordBoundary (Seq optPart
      (Seq (Group (Class ''abcd'')) (Seq (Star whitespace) EndOfInput)))"
  by (simp add: endPattern2_def optPart_def)

lemma endPattern1_shape:
  "endPattern1 = Seq WordBoundary
      (Seq (Alt (Lit ''select'') (Alt (Lit ''choose'') (Lit ''pick'')))
      (Seq (Plus whitespace)
      (Seq optPart
      (Seq (Group (Class ''abcd'')) (Seq (Star whitespace) EndOfInput)))))"
  by (simp add: endPattern1_def optPart_def)

text \<open>
  Every match of either end pattern captures the letter anchored at the end, and the
  second pattern matches whenever there is one.
\<close>

lemma endPattern2_sound:
  assumes "(e, cap) \<in> set (matches True s endPattern2 (q, None))"
  shows "\<exists>j. cap = Some [s ! j] \<and> anchoredAtEnd s j"
proof -
  from assms obtain x where x: "x \<in> set (matches True s WordBoundary (q, None))"
      and 1: "(e, cap) \<in> set (matches True s (Seq optPart
                 (Seq (Group (Class ''abcd'')) (Seq (Star whitespace) EndOfInput))) x)"
    unfolding endPattern2_shape set_matches_Seq [of _ _ WordBoundary] by blast
  from x have bq: "boundaryAt s q" and x': "x = (q, None)"
    unfolding matches_WordBoundary by (auto split: if_splits)
  from 1 obtain y where y: "y \<in> set (matches True s optPart (q, None))"
      and 2: "(e, cap) \<in> set (matches True s
                 (Seq (Group (Class ''abcd'')) (Seq (Star whitespace) EndOfInput)) y)"
    unfolding x' set_matches_Seq [of _ _ optPart] by blast
  obtain j c where yj: "y = (j, c)" by (cases y)
  from optPart_sound [OF y [unfolded yj]]
  have qj: "q \<le> j" and sp: "q < j \<longrightarrow> isSpace (s ! (j - 1))"
    by auto
  from 2 have lt: "j < length s" and letter: "isOptionLetter (s ! j)"
    and cap: "cap = Some [s ! j]" and rest: "list_all isSpace (drop (Suc j) s)"
    unfolding yj letter_then_tail by auto
  have before: "\<not> (0 < j \<and> isWordChar (s ! (j - 1)))"
  proof (cases "q < j")
    case True
    then show ?thesis using sp isSpace_not_word by blast
  next
    case False
    then have "j = q" using qj by simp
    then show ?thesis using boundary_before_letter [OF _ lt letter] bq by simp
  qed
  show ?thesis using lt letter cap rest before by (auto simp: anchoredAtEnd_def)
qed

lemma endPattern2_complete:
  assumes "anchoredAtEnd s j"
  shows "matches True s endPattern2 (j, None) \<noteq> []"
proof -
  have lt: "j < length s" and letter: "isOptionLetter (s ! j)"
    and rest: "list_all isSpace (drop (Suc j) s)"
    using assms by (simp_all add: anchoredAtEnd_def)
  have w: "wordAt s j" using lt letter isOptionLetter_word by (simp add: wordAt_def)
  have bq: "boundaryAt s j"
    using assms w by (auto simp: anchoredAtEnd_def boundaryAt_def wordAt_def)
  have "(length s, Some [s ! j]) \<in> set (matches True s
          (Seq (Group (Class ''abcd'')) (Seq (Star whitespace) EndOfInput)) (j, None))"
    unfolding letter_then_tail using lt letter rest by simp
  then have "(length s, Some [s ! j]) \<in> set (matches True s (Seq optPart
          (Seq (Group (Class ''abcd'')) (Seq (Star whitespace) EndOfInput))) (j, None))"
    unfolding set_matches_Seq [of _ _ optPart] using optPart_skip [of j None s] by blast
  moreover have "(j, None) \<in> set (matches True s WordBoundary (j, None))"
    unfolding matches_WordBoundary using bq by simp
  ultimately have "(length s, Some [s ! j]) \<in> set (matches True s endPattern2 (j, None))"
    unfolding endPattern2_shape set_matches_Seq [of _ _ WordBoundary] by blast
  then show ?thesis by auto
qed

lemma endPattern1_sound:
  assumes "(e, cap) \<in> set (matches True s endPattern1 (q, None))"
  shows "\<exists>j. cap = Some [s ! j] \<and> anchoredAtEnd s j"
proof -
  from assms obtain x where "x \<in> set (matches True s WordBoundary (q, None))"
      and 1: "(e, cap) \<in> set (matches True s
          (Seq (Alt (Lit ''select'') (Alt (Lit ''choose'') (Lit ''pick'')))
          (Seq (Plus whitespace)
          (Seq optPart
          (Seq (Group (Class ''abcd'')) (Seq (Star whitespace) EndOfInput))))) x)"
    unfolding endPattern1_shape set_matches_Seq [of _ _ WordBoundary] by blast
  from 1 obtain v where "v \<in> set (matches True s
          (Alt (Lit ''select'') (Alt (Lit ''choose'') (Lit ''pick''))) x)"
      and 2: "(e, cap) \<in> set (matches True s
          (Seq (Plus whitespace)
          (Seq optPart
          (Seq (Group (Class ''abcd'')) (Seq (Star whitespace) EndOfInput)))) v)"
    unfolding set_matches_Seq [of _ _ "Alt _ _"] by blast
  from 2 obtain w where w: "w \<in> set (matches True s (Plus whitespace) v)"
      and 3: "(e, cap) \<in> set (matches True s
          (Seq optPart
          (Seq (Group (Class ''abcd'')) (Seq (Star whitespace) EndOfInput))) w)"
    unfolding set_matches_Seq [of _ _ "Plus _"] by blast
  obtain p0 c0 where v': "v = (p0, c0)" by (cases v)
  obtain p c where w': "w = (p, c)" by (cases w)
  from w have pw: "p0 < p" "p \<le> p0 + classRun True whitespace s p0"
    unfolding v' w' in_matches_Plus by auto
  have spp: "isSpace (s ! (p - 1))"
    using run_is_space [of p0 "p - 1" p s] pw by simp
  from 3 obtain y where y: "y \<in> set (matches True s optPart (p, c))"
      and 4: "(e, cap) \<in> set (matches True s
                 (Seq (Group (Class ''abcd'')) (Seq (Star whitespace) EndOfInput)) y)"
    unfolding w' set_matches_Seq [of _ _ optPart] by blast
  obtain j c' where yj: "y = (j, c')" by (cases y)
  from optPart_sound [OF y [unfolded yj]]
  have qj: "p \<le> j" and sp: "p < j \<longrightarrow> isSpace (s ! (j - 1))"
    by auto
  from 4 have lt: "j < length s" and letter: "isOptionLetter (s ! j)"
    and cap: "cap = Some [s ! j]" and rest: "list_all isSpace (drop (Suc j) s)"
    unfolding yj letter_then_tail by auto
  have "isSpace (s ! (j - 1))"
    using sp spp qj by (cases "p < j") auto
  then have before: "\<not> (0 < j \<and> isWordChar (s ! (j - 1)))"
    using isSpace_not_word by blast
  show ?thesis using lt letter cap rest before by (auto simp: anchoredAtEnd_def)
qed

lemma anchoredAtEnd_unique:
  assumes "anchoredAtEnd s i" and "anchoredAtEnd s j"
  shows "i = j"
proof -
  have *: "\<not> (a < b)" if "anchoredAtEnd s a" "anchoredAtEnd s b" for a b
  proof
    assume "a < b"
    have "b < length s" "isOptionLetter (s ! b)" "list_all isSpace (drop (Suc a) s)"
      using that by (simp_all add: anchoredAtEnd_def)
    moreover have "s ! b \<in> set (drop (Suc a) s)"
    proof -
      have "drop (Suc a) s ! (b - Suc a) = s ! b" using \<open>a < b\<close> \<open>b < length s\<close> by simp
      moreover have "b - Suc a < length (drop (Suc a) s)"
        using \<open>a < b\<close> \<open>b < length s\<close> by simp
      ultimately show ?thesis by (metis nth_mem)
    qed
    ultimately show False using isSpace_not_letter by (auto simp: list_all_iff)
  qed
  from * [OF assms] * [OF assms(2,1)] show ?thesis by simp
qed

lemma search_Some:
  "search ic r s qs = Some (q, e, c) \<Longrightarrow> q \<in> set qs \<and> (e, c) \<in> set (matches ic s r (q, None))"
  by (induction qs) (auto split: list.splits)

lemma search_None:
  "search ic r s qs = None \<Longrightarrow> q \<in> set qs \<Longrightarrow> matches ic s r (q, None) = []"
  by (induction qs) (auto split: list.splits)

lemma end_letter: "endLoop endPatterns s = specEndLetter s"
proof (cases "\<exists>j. anchoredAtEnd s j")
  case True
  then obtain j where j: "anchoredAtEnd s j" ..
  then have jl: "j < length s" by (simp add: anchoredAtEnd_def)
  have "filter (anchoredAtEnd s) [0..<length s] = [j]"
  proof -
    let ?xs = "filter (anchoredAtEnd s) [0..<length s]"
    have mem: "x \<in> set ?xs \<longleftrightarrow> x = j" for x
    proof
      assume "x \<in> set ?xs"
      then have "anchoredAtEnd s x" by simp
      then show "x = j" by (rule anchoredAtEnd_unique [OF _ j])
    next
      assume "x = j"
      then show "x \<in> set ?xs" using j jl by simp
    qed
    have d: "distinct ?xs" by simp
    show ?thesis
    proof (cases ?xs)
      case Nil
      then show ?thesis using mem [of j] by simp
    next
      case (Cons a ys)
      have "a = j" using mem [of a] Cons by simp
      moreover have "ys = []"
      proof (cases ys)
        case Nil
        then show ?thesis .
      next
        case (Cons b zs)
        have "b \<in> set ?xs" using \<open>?xs = a # ys\<close> Cons by simp
        then have "b = j" using mem by blast
        moreover have "b \<noteq> a" using d \<open>?xs = a # ys\<close> Cons by auto
        ultimately show ?thesis using \<open>a = j\<close> by simp
      qed
      ultimately show ?thesis using Cons by simp
    qed
  qed
  then have spec: "specEndLetter s = Some (letterAt s j)"
    by (simp add: specEndLetter_def)
  have sound: "letterOf m = Some (letterAt s j)"
    if "jsMatch True endPattern1 s = Some m \<or> jsMatch True endPattern2 s = Some m" for m
  proof -
    obtain q e cap where m: "m = (q, e, cap)" by (cases m)
    from that have "(e, cap) \<in> set (matches True s endPattern1 (q, None))
        \<or> (e, cap) \<in> set (matches True s endPattern2 (q, None))"
      unfolding jsMatch_def m using search_Some by blast
    then obtain j' where "cap = Some [s ! j']" "anchoredAtEnd s j'"
      using endPattern1_sound endPattern2_sound by blast
    then show ?thesis
      using anchoredAtEnd_unique [OF _ j] by (auto simp: m letterOf_capture)
  qed
  have "jsMatch True endPattern2 s \<noteq> None"
  proof
    assume "jsMatch True endPattern2 s = None"
    then have "matches True s endPattern2 (j, None) = []"
      unfolding jsMatch_def using search_None [of True endPattern2 s _ j] jl by simp
    then show False using endPattern2_complete [OF j] by simp
  qed
  then show ?thesis
    using sound by (auto simp: endPatterns_def spec split: option.splits)
next
  case False
  then have "filter (anchoredAtEnd s) [0..<length s] = []"
    by (auto simp: filter_empty_conv)
  then have spec: "specEndLetter s = None" by (simp add: specEndLetter_def)
  have "jsMatch True endPattern1 s = None"
  proof (rule ccontr)
    assume "jsMatch True endPattern1 s \<noteq> None"
    then obtain q e cap where "jsMatch True endPattern1 s = Some (q, e, cap)" by auto
    then have "(e, cap) \<in> set (matches True s endPattern1 (q, None))"
      unfolding jsMatch_def using search_Some by blast
    then show False using endPattern1_sound False by blast
  qed
  moreover have "jsMatch True endPattern2 s = None"
  proof (rule ccontr)
    assume "jsMatch True endPattern2 s \<noteq> None"
    then obtain q e cap where "jsMatch True endPattern2 s = Some (q, e, cap)" by auto
    then have "(e, cap) \<in> set (matches True s endPattern2 (q, None))"
      unfolding jsMatch_def using search_Some by blast
    then show False using endPattern2_sound False by blast
  qed
  ultimately show ?thesis by (simp add: endPatterns_def spec)
qed

lemma selectedLetter_refines:
  "selectedLetter command = specSelectedLetter command"
proof -
  have a: "endLoop endPatterns command = specEndLetter command" by (rule end_letter)
  have b: "(case jsMatch True letterPattern (sliceLast 15 command) of
              Some lastMatch \<Rightarrow> letterOf lastMatch | None \<Rightarrow> None)
           = specFirstLetter (sliceLast 15 command)"
    by (rule first_letter)
  have c: "(case matchAll True letterPattern command of
              [] \<Rightarrow> None | m # ms \<Rightarrow> letterOf (last (m # ms)))
           = specLastLetter command"
    by (rule last_letter)
  show ?thesis
    unfolding selectedLetter_def specSelectedLetter_def Let_def a
    using b c by (auto split: option.splits list.splits)
qed


text \<open>
  Claim C4: for every command the option letter is found in the specification's order: the
  letter of a command phrase anchored at the end of the command; else a letter standing
  alone in the final 15 characters (the first one there); else the last letter standing
  alone anywhere in the command.  So \<^verbatim>\<open>option a select option d\<close> gives D, and \<^verbatim>\<open>d\<close>
  alone gives D.
\<close>

theorem selectedLetter_priority:
  "selectedLetter command = specSelectedLetter command
   \<and> selectedLetter ''option a select option d'' = Some ''D''
   \<and> selectedLetter ''d'' = Some ''D''"
proof -
  have "selectedLetter ''option a select option d'' = Some ''D''" by code_simp
  moreover have "selectedLetter ''d'' = Some ''D''" by code_simp
  ultimately show ?thesis using selectedLetter_refines by simp
qed


section \<open>Properties of the screens\<close>

lemma submissions_act [simp]:
  "submissions (act as p) = submissions p + length (filter isSubmitExam as)"
  by (simp add: submissions_def act_def)

lemma submissions_update [simp]:
  "submissions (p\<lparr>isProcessingCommand := b\<rparr>) = submissions p"
  "submissions (p\<lparr>currentScreenContext := c\<rparr>) = submissions p"
  by (simp_all add: submissions_def)

lemma submissions_examPage_update [simp]:
  "submissions (q\<lparr>isWaitingForConfirmation := b\<rparr>) = submissions q"
  "submissions (q\<lparr>submitting := b\<rparr>) = submissions q"
  "submissions (q\<lparr>timeRemaining := n\<rparr>) = submissions q"
  "submissions (q\<lparr>currentQuestionIndex := i\<rparr>) = submissions q"
  "submissions (q\<lparr>answers := a\<rparr>) = submissions q"
  for q :: examPage
  by (simp_all add: submissions_def)

lemma submissions_saveAnswer [simp]: "submissions (saveAnswer a p) = submissions p"
  by (simp add: saveAnswer_def Let_def split: option.splits)

lemma act_fields [simp]:
  "isWaitingForConfirmation (act as p) = isWaitingForConfirmation p"
  "currentScreenContext (act as p) = currentScreenContext p"
  "isProcessingCommand (act as p) = isProcessingCommand p"
  "exam (act as p) = exam p"
  "userUid (act as p) = userUid p"
  "submissionFails (act as p) = submissionFails p"
  by (simp_all add: act_def)

lemma saveAnswer_waiting [simp]:
  "isWaitingForConfirmation (saveAnswer a p) = isWaitingForConfirmation p"
  by (simp add: saveAnswer_def Let_def split: option.splits)

subsection \<open>Runs that nothing interrupts\<close>

lemma outcome_await [simp]: "outcome (await a k p) = outcome (k (act [a] p))"
  by (simp add: await_def)

lemma outcome_pause [simp]: "outcome (pause ms k p) = outcome (k p)"
  by (simp add: pause_def)

lemma detached_await [simp]: "detached (await a k p) = detached (k (act [a] p))"
  by (simp add: await_def)

lemma detached_pause [simp]: "detached (pause ms k p) = detached (k p)"
  by (simp add: pause_def)















text \<open>
  On a multiple-choice question the handler looks for an option letter before anything
  else; only a command without one reaches the navigation and control commands.
\<close>

lemma tryBlock_multiple_choice:
  assumes "currentQuestion p = Some q" and "questionType q = MultipleChoice"
  shows "tryBlock command k p =
           (case specSelectedLetter command of
              Some letter \<Rightarrow> selectOption letter q k (act [StopListening] p)
            | None \<Rightarrow> control command k (act [StopListening] p))"
proof -
  have "currentQuestion (act [StopListening] p) = currentQuestion p"
    by (simp add: currentQuestion_def act_def split: option.splits)
  then have "currentQuestion (act [StopListening] p) = Some q"
    using assms(1) by simp
  then show ?thesis
    using assms(2) by (simp add: tryBlock_def Let_def selectedLetter_refines split: option.splits)
qed

text \<open>
  A tick of the countdown at one second, with no handler under way, calls the sink once,
  clears the flag of the confirmation and stops the countdown.
\<close>

lemma tick_submits_directly:
  assumes "exam p \<noteq> None" and "userUid p" and "\<not> submitting p"
    and "0 < timeRemaining p" and "timeRemaining p \<le> 1"
  shows "submissions (outcome (timerTick p)) = submissions p + 1"
    and "\<not> isWaitingForConfirmation (outcome (timerTick p))"
    and "timeRemaining (outcome (timerTick p)) = 0"
    and "timerTick (outcome (timerTick p)) = Finished (outcome (timerTick p))"
  using assms
  by (auto simp: timerTick_def handleAutoSubmit_def submitExamAnswers_def Let_def await_def)

text \<open>
  Claim C7: a transcript delivered while the current context is not the screen's own is
  dropped: the handler returns before its interpreter runs, without waiting for anything
  and leaving nothing behind, and the screen's state, including the trace of its actions,
  is what it was.  This holds for the exam screen (context \<^verbatim>\<open>"EXAM"\<close>) and for the home
  screen (context \<^verbatim>\<open>"HOME"\<close>).
\<close>

theorem context_gate:
  "(currentScreenContext p \<noteq> Some EXAM \<longrightarrow> handleVoiceCommand transcript p = Finished p)
   \<and> (currentScreenContext h \<noteq> Some HOME \<longrightarrow> homeHandleVoiceCommand transcript h = h)"
  by (simp add: handleVoiceCommand_def homeHandleVoiceCommand_def Let_def)

theorem context_gate_witness:
  "handleVoiceCommand ''submit'' (sampleExamPage\<lparr>currentScreenContext := Some HOME\<rparr>)
     = Finished (sampleExamPage\<lparr>currentScreenContext := Some HOME\<rparr>)
   \<and> homeHandleVoiceCommand ''begin exam 1'' (sampleHomePage\<lparr>currentScreenContext := Some EXAM\<rparr>)
     = sampleHomePage\<lparr>currentScreenContext := Some EXAM\<rparr>"
proof -
  have "currentScreenContext (sampleExamPage\<lparr>currentScreenContext := Some HOME\<rparr>) \<noteq> Some EXAM"
    and "currentScreenContext (sampleHomePage\<lparr>currentScreenContext := Some EXAM\<rparr>) \<noteq> Some HOME"
    by simp_all
  then show ?thesis
    using context_gate [of "sampleExamPage\<lparr>currentScreenContext := Some HOME\<rparr>" "''submit''"
        "sampleHomePage\<lparr>currentScreenContext := Some EXAM\<rparr>"]
      context_gate [of "sampleExamPage\<lparr>currentScreenContext := Some HOME\<rparr>" "''begin exam 1''"
        "sampleHomePage\<lparr>currentScreenContext := Some EXAM\<rparr>"]
    by simp
qed

text \<open>
  Claim C9: if the countdown reaches zero while the submit confirmation is open, the
  submission fires directly, the confirmation is cancelled so that its \<^verbatim>\<open>yes\<close> path
  cannot run it again, and the submission is not executed twice.

  The \<^verbatim>\<open>yes\<close> branch clears the flag of the confirmation only after
  \<^verbatim>\<open>await speechService.speak("Submitting exam.")\<close>, and \<^verbatim>\<open>submitExamAnswers\<close> does not
  look at \<open>submitting\<close>.  With the confirmation open and one second left, \<^verbatim>\<open>yes\<close> is heard;
  the countdown ticks while the handler waits for the speech and submits; the speech ends
  (\<open>Complete 0\<close>) and the handler submits a second time.
\<close>

theorem auto_submit_submits_twice:
  "submissions (fst (examRun
       (sampleExamPage\<lparr>isWaitingForConfirmation := True, timeRemaining := 1\<rparr>, [])
       [Hear ''yes'', Tick])) = 1
   \<and> actions (fst (examRun
       (sampleExamPage\<lparr>isWaitingForConfirmation := True, timeRemaining := 1\<rparr>, [])
       [Hear ''yes'', Tick, Complete 0]))
     = [StopListening, Say ''Submitting exam.'',
        StopListening, StopSpeaking, SubmitExam [],
        StopListening, StopSpeaking, SubmitExam []]
   \<and> submissions (fst (examRun
       (sampleExamPage\<lparr>isWaitingForConfirmation := True, timeRemaining := 1\<rparr>, [])
       [Hear ''yes'', Tick, Complete 0])) = 2"
  by code_simp




end
